theory Spec2Isabelle
  imports Complex_Main "HOL-Library.Word"
begin

section \<open>JavaScript values\<close>

text \<open>
  The server actions work on untyped JavaScript data: the value a backend call resolves
  to, the value it rejects with, and the result of \<open>JSON.parse\<close>. The model
  covers the data values of the language (everything JSON can carry, and
  \<open>undefined\<close>). A string is its sequence of UTF-16 code units, which is what
  \<open>trim\<close>, \<open>includes\<close>, \<open>startsWith\<close> and the regular
  expressions of the source work on. A number is the rational it denotes, or one of the
  three non-finite values; \<open>-0\<close> and \<open>0\<close> are not told apart, since
  no operation of the source distinguishes them. An object is the list of its own
  properties in insertion order; looking a key up takes its first entry.
\<close>

type_synonym jschar = "16 word"
type_synonym jsstring = "jschar list"

definition lit :: "string \<Rightarrow> jsstring" where
  "lit s = map of_char s"

datatype jsnum = Finite rat | PosInf | NegInf | NaN

datatype jsval =
    JUndefined
  | JNull
  | JBool bool
  | JNum jsnum
  | JStr jsstring
  | JArr "jsval list"
  | JObj "(jsstring \<times> jsval) list"

text \<open>
  What a \<open>throw\<close> carries: a \<open>TypeError\<close> or \<open>SyntaxError\<close>
  raised by the runtime, an \<open>Error\<close> built by the source with its message,
  or the value a collaborator (the backend, the database, the authentication service)
  rejected with.
\<close>

datatype jserror = TypeError | SyntaxError | Error jsstring | Thrown jsval

fun truthy :: "jsval \<Rightarrow> bool" where
  "truthy JUndefined = False"
| "truthy JNull = False"
| "truthy (JBool b) = b"
| "truthy (JNum n) = (n \<noteq> Finite 0 \<and> n \<noteq> NaN)"
| "truthy (JStr s) = (s \<noteq> [])"
| "truthy (JArr xs) = True"
| "truthy (JObj fs) = True"

fun nullish :: "jsval \<Rightarrow> bool" where
  "nullish JUndefined = True"
| "nullish JNull = True"
| "nullish v = False"

fun is_string :: "jsval \<Rightarrow> bool" where
  "is_string (JStr s) = True"
| "is_string v = False"

fun is_array :: "jsval \<Rightarrow> bool" where
  "is_array (JArr xs) = True"
| "is_array v = False"

subsection \<open>Property access\<close>

definition is_digit :: "jschar \<Rightarrow> bool" where
  "is_digit c = (0x30 \<le> c \<and> c \<le> 0x39)"

definition digit_val :: "jschar \<Rightarrow> nat" where
  "digit_val c = unat c - 48"

definition digits_val :: "jsstring \<Rightarrow> nat" where
  "digits_val ds = foldl (\<lambda>acc c. 10 * acc + digit_val c) 0 ds"

text \<open>
  A property key is an array index when it is the canonical decimal form of an integer
  below \<open>2^32 - 1\<close>: \<open>"0"\<close>, or digits with no leading zero.
\<close>

definition array_index :: "jsstring \<Rightarrow> nat option" where
  "array_index k =
     (if k \<noteq> [] \<and> list_all is_digit k \<and> (k = [0x30] \<or> hd k \<noteq> 0x30)
         \<and> digits_val k < 4294967295
      then Some (digits_val k) else None)"

text \<open>
  \<open>getp v k\<close> is \<open>v[k]\<close> for a value that is neither \<open>null\<close> nor
  \<open>undefined\<close>, for the keys the source reads (data properties, an index,
  \<open>length\<close>): an own property of an object, an element or the length of an
  array, a code unit or the length of a string, and \<open>undefined\<close> otherwise.
  The methods of the prototypes (\<open>includes\<close>, \<open>map\<close>, \<open>join\<close>,
  \<open>trim\<close>) are modelled at their call sites.
\<close>

fun getp :: "jsval \<Rightarrow> jsstring \<Rightarrow> jsval" where
  "getp (JObj fs) k = (case map_of fs k of Some v \<Rightarrow> v | None \<Rightarrow> JUndefined)"
| "getp (JArr xs) k =
     (if k = lit ''length'' then JNum (Finite (of_nat (length xs)))
      else case array_index k of
             Some i \<Rightarrow> (if i < length xs then xs ! i else JUndefined)
           | None \<Rightarrow> JUndefined)"
| "getp (JStr s) k =
     (if k = lit ''length'' then JNum (Finite (of_nat (length s)))
      else case array_index k of
             Some i \<Rightarrow> (if i < length s then JStr [s ! i] else JUndefined)
           | None \<Rightarrow> JUndefined)"
| "getp v k = JUndefined"

text \<open>\<open>v?.k\<close>: \<open>undefined\<close> on \<open>null\<close> and \<open>undefined\<close>.\<close>

definition oget :: "jsval \<Rightarrow> jsstring \<Rightarrow> jsval" where
  "oget v k = (if nullish v then JUndefined else getp v k)"

text \<open>\<open>v.k\<close>: a \<open>TypeError\<close> on \<open>null\<close> and \<open>undefined\<close>.\<close>

definition sget :: "jsval \<Rightarrow> jsstring \<Rightarrow> jserror + jsval" where
  "sget v k = (if nullish v then Inl TypeError else Inr (getp v k))"


section \<open>Numbers\<close>

text \<open>
  Arithmetic on numbers is IEEE 754 double precision: the exact result, rounded to the
  nearest double, ties to the even significand, overflowing to an infinity.
  \<open>round_double\<close> is that rounding on a rational: 53 significant bits, the
  smallest exponent \<open>-1074\<close>, and \<open>2^1024\<close> and beyond is infinite.
\<close>

definition pow2 :: "int \<Rightarrow> rat" where
  "pow2 e = (if 0 \<le> e then 2 ^ nat e else 1 / 2 ^ nat (- e))"

definition pow10 :: "int \<Rightarrow> rat" where
  "pow10 e = (if 0 \<le> e then 10 ^ nat e else 1 / 10 ^ nat (- e))"

fun ilog :: "nat \<Rightarrow> nat \<Rightarrow> nat" where
  "ilog b n = (if b < 2 \<or> n < b then 0 else Suc (ilog b (n div b)))"

declare ilog.simps [simp del]

text \<open>The integer part of the logarithm to base \<open>b\<close> of a positive rational.\<close>

definition flog :: "nat \<Rightarrow> rat \<Rightarrow> int" where
  "flog b q =
     (let (n, d) = quotient_of q;
          e = int (ilog b (nat n)) - int (ilog b (nat d));
          p = (if 0 \<le> e then of_nat b ^ nat e else 1 / of_nat b ^ nat (- e))
      in if p \<le> q then e else e - 1)"

definition round_half_even :: "rat \<Rightarrow> int" where
  "round_half_even x =
     (let f = \<lfloor>x\<rfloor>; r = x - of_int f
      in if r < 1 / 2 then f else if 1 / 2 < r then f + 1 else if even f then f else f + 1)"

definition round_double :: "rat \<Rightarrow> jsnum" where
  "round_double q =
     (if q = 0 then Finite 0
      else let a = \<bar>q\<bar>;
               e = max (flog 2 a - 52) (- 1074);
               r = of_int (round_half_even (a / pow2 e)) * pow2 e
           in if pow2 1024 \<le> r then (if 0 < q then PosInf else NegInf)
              else Finite (if 0 < q then r else - r))"

text \<open>\<open>a * b\<close>\<close>

fun js_mul :: "jsnum \<Rightarrow> jsnum \<Rightarrow> jsnum" where
  "js_mul (Finite a) (Finite b) = round_double (a * b)"
| "js_mul NaN y = NaN"
| "js_mul x NaN = NaN"
| "js_mul (Finite a) PosInf = (if a = 0 then NaN else if 0 < a then PosInf else NegInf)"
| "js_mul (Finite a) NegInf = (if a = 0 then NaN else if 0 < a then NegInf else PosInf)"
| "js_mul PosInf (Finite b) = (if b = 0 then NaN else if 0 < b then PosInf else NegInf)"
| "js_mul NegInf (Finite b) = (if b = 0 then NaN else if 0 < b then NegInf else PosInf)"
| "js_mul PosInf PosInf = PosInf"
| "js_mul PosInf NegInf = NegInf"
| "js_mul NegInf PosInf = NegInf"
| "js_mul NegInf NegInf = PosInf"

text \<open>\<open>Math.ceil(x)\<close>\<close>

fun js_ceil :: "jsnum \<Rightarrow> jsnum" where
  "js_ceil (Finite x) = Finite (of_int \<lceil>x\<rceil>)"
| "js_ceil x = x"

text \<open>\<open>x > 0\<close>\<close>

fun js_positive :: "jsnum \<Rightarrow> bool" where
  "js_positive (Finite x) = (0 < x)"
| "js_positive PosInf = True"
| "js_positive x = False"

subsection \<open>Number to string\<close>

text \<open>
  \<open>Number.prototype.toString\<close>: the digits \<open>s\<close> (there are \<open>k\<close>
  of them) and the exponent \<open>n\<close> with the least \<open>k\<close> such that
  \<open>s * 10^(n-k)\<close> rounds to the number, the closest such when there are two;
  then positional notation for \<open>-6 < n \<le> 21\<close> and exponent notation outside.
\<close>

fun nat_digits :: "nat \<Rightarrow> jsstring" where
  "nat_digits n =
     (if n < 10 then [of_nat (48 + n)] else nat_digits (n div 10) @ [of_nat (48 + n mod 10)])"

declare nat_digits.simps [simp del]

definition dec_value :: "nat \<Rightarrow> nat \<times> int \<Rightarrow> rat" where
  "dec_value k c = of_nat (fst c) * pow10 (snd c - int k)"

text \<open>The two decimals of \<open>k\<close> digits next to a positive \<open>x\<close>.\<close>

definition dec_candidates :: "rat \<Rightarrow> nat \<Rightarrow> (nat \<times> int) list" where
  "dec_candidates x k =
     (let n = flog 10 x + 1; lo = nat \<lfloor>x * pow10 (int k - n)\<rfloor>
      in [(lo, n), if lo + 1 = 10 ^ k then (10 ^ (k - 1), n + 1) else (lo + 1, n)])"

definition best_candidate :: "rat \<Rightarrow> nat \<Rightarrow> (nat \<times> int) option" where
  "best_candidate x k =
     (case filter (\<lambda>c. round_double (dec_value k c) = Finite x) (dec_candidates x k) of
        [] \<Rightarrow> None
      | [c] \<Rightarrow> Some c
      | c1 # c2 # cs \<Rightarrow>
          (let d1 = \<bar>dec_value k c1 - x\<bar>; d2 = \<bar>dec_value k c2 - x\<bar>
           in Some (if d1 < d2 then c1 else if d2 < d1 then c2
                    else if even (fst c1) then c1 else c2)))"

definition shortest_digits :: "rat \<Rightarrow> nat \<times> nat \<times> int" where
  "shortest_digits x =
     (case List.map_filter (\<lambda>k. map_option (Pair k) (best_candidate x k)) [1..<18] of
        r # rs \<Rightarrow> r
      | [] \<Rightarrow> (17, hd (dec_candidates x 17)))"

definition pos_to_string :: "rat \<Rightarrow> jsstring" where
  "pos_to_string x =
     (let (k, s, n) = shortest_digits x; ds = nat_digits s
      in if int k \<le> n \<and> n \<le> 21 then ds @ replicate (nat (n - int k)) 0x30
         else if 0 < n \<and> n \<le> 21 then take (nat n) ds @ [0x2E] @ drop (nat n) ds
         else if - 6 < n \<and> n \<le> 0 then lit ''0.'' @ replicate (nat (- n)) 0x30 @ ds
         else let e = n - 1; es = (if 0 \<le> e then 0x2B else 0x2D) # nat_digits (nat \<bar>e\<bar>)
              in if k = 1 then ds @ [0x65] @ es else [hd ds, 0x2E] @ tl ds @ [0x65] @ es)"

definition num_to_string :: "jsnum \<Rightarrow> jsstring" where
  "num_to_string v =
     (case v of
        NaN \<Rightarrow> lit ''NaN''
      | PosInf \<Rightarrow> lit ''Infinity''
      | NegInf \<Rightarrow> lit ''-Infinity''
      | Finite x \<Rightarrow>
          if x = 0 then lit ''0''
          else if x < 0 then 0x2D # pos_to_string (- x)
          else pos_to_string x)"

section \<open>Strings\<close>

text \<open>
  The code units \<open>trim\<close> removes: the white space and line terminators of
  the language.
\<close>

definition js_space :: "jschar \<Rightarrow> bool" where
  "js_space c =
     (c = 0x09 \<or> c = 0x0A \<or> c = 0x0B \<or> c = 0x0C \<or> c = 0x0D \<or> c = 0x20
      \<or> c = 0xA0 \<or> c = 0x1680 \<or> (0x2000 \<le> c \<and> c \<le> 0x200A) \<or> c = 0x2028
      \<or> c = 0x2029 \<or> c = 0x202F \<or> c = 0x205F \<or> c = 0x3000 \<or> c = 0xFEFF)"

definition trim_start :: "jsstring \<Rightarrow> jsstring" where
  "trim_start s = dropWhile js_space s"

definition trim :: "jsstring \<Rightarrow> jsstring" where
  "trim s = rev (dropWhile js_space (rev (dropWhile js_space s)))"

definition starts_with :: "jsstring \<Rightarrow> jsstring \<Rightarrow> bool" where
  "starts_with s p = (take (length p) s = p)"

text \<open>\<open>s.includes(sub)\<close>: \<open>sub\<close> occurs in \<open>s\<close> at some position.\<close>

fun str_includes :: "jsstring \<Rightarrow> jsstring \<Rightarrow> bool" where
  "str_includes [] sub = (sub = [])"
| "str_includes (c # cs) sub = (starts_with (c # cs) sub \<or> str_includes cs sub)"

fun join_with :: "jsstring \<Rightarrow> jsstring list \<Rightarrow> jsstring" where
  "join_with sep [] = []"
| "join_with sep [s] = s"
| "join_with sep (s # t # ss) = s @ sep @ join_with sep (t # ss)"

text \<open>
  \<open>String(v)\<close>, the conversion \<open>join\<close> and \<open>RegExp.prototype.exec\<close>
  apply to what they are given; \<open>None\<close> is the \<open>TypeError\<close> of a value
  with no primitive form. An array is its elements joined by commas, \<open>null\<close> and
  \<open>undefined\<close> elements empty. A plain object is \<open>[object Object]\<close>;
  one with an own \<open>toString\<close> property, which in a data value is not a
  function, has no primitive form.
\<close>

fun to_string :: "jsval \<Rightarrow> jsstring option" where
  "to_string JUndefined = Some (lit ''undefined'')"
| "to_string JNull = Some (lit ''null'')"
| "to_string (JBool b) = Some (if b then lit ''true'' else lit ''false'')"
| "to_string (JNum n) = Some (num_to_string n)"
| "to_string (JStr s) = Some s"
| "to_string (JArr xs) =
     map_option (join_with [0x2C])
       (those (map (\<lambda>v. if nullish v then Some [] else to_string v) xs))"
| "to_string (JObj fs) =
     (if map_of fs (lit ''toString'') = None then Some (lit ''[object Object]'') else None)"


section \<open>Reading the text of a backend response\<close>

text \<open>
  Every action that calls the backend normalises the response the same way
  (\<open>generateAIInsights\<close>, \<open>generateQuiz\<close>, \<open>saveQuizResult\<close> and the
  scheduled \<open>generateIndustryInsights\<close>):
  \<^verbatim>\<open>
  if (typeof result?.text === "string") { text = result.text; }
  else if (typeof result?.response?.text === "string") { text = result.response.text; }
  else if (result?.response?.candidates?.[0]?.content?.parts &&
           Array.isArray(result.response.candidates[0].content.parts)) {
    text = result.response.candidates[0].content.parts.map((p) => p.text || "").join("");
  } else { ...; throw new Error("AI returned no text"); }
  \<close>
\<close>

definition candidate_parts :: "jsval \<Rightarrow> jsval" where
  "candidate_parts result =
     oget (oget (oget (oget (oget result (lit ''response'')) (lit ''candidates'')) (lit ''0''))
       (lit ''content'')) (lit ''parts'')"

text \<open>The callback \<open>(p) => p.text || ""\<close>.\<close>

definition part_text :: "jsval \<Rightarrow> jserror + jsval" where
  "part_text p =
     (case sget p (lit ''text'') of
        Inl e \<Rightarrow> Inl e
      | Inr t \<Rightarrow> Inr (if truthy t then t else JStr []))"

text \<open>\<open>xs.map(f)\<close> for a callback that may throw: the first throw ends the call.\<close>

fun array_map :: "(jsval \<Rightarrow> jserror + jsval) \<Rightarrow> jsval list \<Rightarrow> jserror + jsval list" where
  "array_map f [] = Inr []"
| "array_map f (x # xs) =
     (case f x of
        Inl e \<Rightarrow> Inl e
      | Inr y \<Rightarrow> (case array_map f xs of Inl e \<Rightarrow> Inl e | Inr ys \<Rightarrow> Inr (y # ys)))"

text \<open>\<open>xs.join(sep)\<close>\<close>

definition array_join :: "jsstring \<Rightarrow> jsval list \<Rightarrow> jserror + jsstring" where
  "array_join sep xs =
     (case those (map (\<lambda>v. if nullish v then Some [] else to_string v) xs) of
        None \<Rightarrow> Inl TypeError
      | Some ss \<Rightarrow> Inr (join_with sep ss))"

definition parts_text :: "jsval list \<Rightarrow> jserror + jsstring" where
  "parts_text ps =
     (case array_map part_text ps of Inl e \<Rightarrow> Inl e | Inr ts \<Rightarrow> array_join [] ts)"

definition extract_text :: "jsval \<Rightarrow> jserror + jsstring" where
  "extract_text result =
     (case oget result (lit ''text'') of
        JStr s \<Rightarrow> Inr s
      | _ \<Rightarrow>
        (case oget (oget result (lit ''response'')) (lit ''text'') of
           JStr s \<Rightarrow> Inr s
         | _ \<Rightarrow>
           (if truthy (candidate_parts result) \<and> is_array (candidate_parts result)
            then (case candidate_parts result of JArr ps \<Rightarrow> parts_text ps | _ \<Rightarrow> Inl TypeError)
            else Inl (Error (lit ''AI returned no text'')))))"

text \<open>
  \<open>generateCoverLetter\<close> and \<open>improveWithAI\<close> trim the text in each branch;
  \<open>generateCoverLetter\<close> wraps the block in a \<open>try\<close> whose handler
  replaces whatever was thrown:
  \<^verbatim>\<open>
  try {
    if (typeof result?.text === "string") { content = result.text.trim(); }
    else if (typeof result?.response?.text === "string") { content = result.response.text.trim(); }
    else if (... parts ...) { content = ....map((p) => p.text || "").join("").trim(); }
    else { ...; throw new Error("AI returned no text"); }
  } catch (e) { ...; throw new Error("Failed to parse AI response"); }
  \<close>
\<close>

definition extract_trimmed :: "jsval \<Rightarrow> jserror + jsstring" where
  "extract_trimmed result =
     (case oget result (lit ''text'') of
        JStr s \<Rightarrow> Inr (trim s)
      | _ \<Rightarrow>
        (case oget (oget result (lit ''response'')) (lit ''text'') of
           JStr s \<Rightarrow> Inr (trim s)
         | _ \<Rightarrow>
           (if truthy (candidate_parts result) \<and> is_array (candidate_parts result)
            then (case candidate_parts result of
                    JArr ps \<Rightarrow> (case parts_text ps of Inl e \<Rightarrow> Inl e | Inr s \<Rightarrow> Inr (trim s))
                  | _ \<Rightarrow> Inl TypeError)
            else Inl (Error (lit ''AI returned no text'')))))"

definition extract_content :: "jsval \<Rightarrow> jserror + jsstring" where
  "extract_content result =
     (case extract_trimmed result of
        Inl e \<Rightarrow> Inl (Error (lit ''Failed to parse AI response''))
      | Inr s \<Rightarrow> Inr s)"

text \<open>
  A fragment the extractor reads as intended: a value other than \<open>null\<close> and
  \<open>undefined\<close> whose \<open>text\<close> is a string, or is missing or otherwise
  falsy. Its contribution is the string, or nothing.
\<close>

definition fragment_ok :: "jsval \<Rightarrow> bool" where
  "fragment_ok p =
     (\<not> nullish p \<and> (is_string (getp p (lit ''text'')) \<or> \<not> truthy (getp p (lit ''text''))))"

definition fragment_str :: "jsval \<Rightarrow> jsstring" where
  "fragment_str p = (case getp p (lit ''text'') of JStr s \<Rightarrow> s | _ \<Rightarrow> [])"

section \<open>Regular expressions of the source\<close>

definition fence :: jsstring where
  "fence = [0x60, 0x60, 0x60]"

text \<open>An optional literal of a pattern: taken when the text goes on with it.\<close>

definition eat :: "jsstring \<Rightarrow> jsstring \<Rightarrow> jsstring" where
  "eat p s = (if starts_with s p then drop (length p) s else s)"

lemma length_eat: "length (eat p s) \<le> length s"
  by (simp add: eat_def)

text \<open>
  \<^verbatim>\<open>text.replace(/```(?:json)?\n?/g, "")\<close> (\<open>generateAIInsights\<close>,
  \<open>generateIndustryInsights\<close>): from left to right, every occurrence of three
  backticks goes, with the \<open>json\<close> after it if there is one and then one line
  feed if there is one; the search goes on after what was removed.
\<close>

function strip_fences :: "jsstring \<Rightarrow> jsstring" where
  "strip_fences [] = []"
| "strip_fences (c # cs) =
     (if starts_with (c # cs) fence
      then strip_fences (eat [0x0A] (eat (lit ''json'') (drop 3 (c # cs))))
      else c # strip_fences cs)"
  by pat_completeness auto
termination
proof (relation "measure length")
  fix c :: jschar and cs :: jsstring
  have "length (eat [0x0A] (eat (lit ''json'') (drop 3 (c # cs)))) \<le> length (drop 3 (c # cs))"
    using length_eat[of "[0x0A]" "eat (lit ''json'') (drop 3 (c # cs))"]
          length_eat[of "lit ''json''" "drop 3 (c # cs)"]
    by linarith
  then show "(eat [0x0A] (eat (lit ''json'') (drop 3 (c # cs))), c # cs) \<in> measure length"
    by simp
qed simp_all

text \<open>
  \<^verbatim>\<open>text.replace(/```json|```/g, "")\<close> (\<open>generateQuiz\<close>): the first
  alternative is tried first, so a fence goes with the \<open>json\<close> after it; a line
  feed stays.
\<close>

function strip_fences_quiz :: "jsstring \<Rightarrow> jsstring" where
  "strip_fences_quiz [] = []"
| "strip_fences_quiz (c # cs) =
     (if starts_with (c # cs) (fence @ lit ''json'') then strip_fences_quiz (drop 7 (c # cs))
      else if starts_with (c # cs) fence then strip_fences_quiz (drop 3 (c # cs))
      else c # strip_fences_quiz cs)"
  by pat_completeness auto
termination
  by (relation "measure length") simp_all

text \<open>
  \<^verbatim>\<open>/([0-9]+(?:\.[0-9]+)?)s/.exec(str)\<close>, its first capture. At one
  position the pattern matches when the longest run of digits there is followed by
  \<open>s\<close>, or by a point, a longest run of digits and \<open>s\<close>; giving digits
  back never helps, since what follows them is then a digit. The positions are tried
  from the left.
\<close>

definition delay_match_at :: "jsstring \<Rightarrow> jsstring option" where
  "delay_match_at s =
     (let ds = takeWhile is_digit s; r = dropWhile is_digit s
      in if ds = [] then None
         else case r of
                [] \<Rightarrow> None
              | c # r' \<Rightarrow>
                  if c = 0x2E \<and> takeWhile is_digit r' \<noteq> []
                     \<and> starts_with (dropWhile is_digit r') [0x73]
                  then Some (ds @ [0x2E] @ takeWhile is_digit r')
                  else if c = 0x73 then Some ds
                  else None)"

fun delay_exec :: "jsstring \<Rightarrow> jsstring option" where
  "delay_exec [] = None"
| "delay_exec (c # cs) =
     (case delay_match_at (c # cs) of Some m \<Rightarrow> Some m | None \<Rightarrow> delay_exec cs)"

text \<open>
  \<open>parseFloat\<close> of a capture of that pattern, digits with an optional
  fraction: the double nearest to the decimal.
\<close>

definition decimal_value :: "jsstring \<Rightarrow> rat" where
  "decimal_value m =
     (let ip = takeWhile is_digit m; fp = drop (Suc (length ip)) m
      in of_nat (digits_val ip) + of_nat (digits_val fp) / 10 ^ length fp)"

definition parse_float :: "jsstring \<Rightarrow> jsnum" where
  "parse_float m = round_double (decimal_value m)"

section \<open>JSON\<close>

subsection \<open>\<open>JSON.parse\<close>\<close>

text \<open>
  The text is split into tokens and the tokens are read by a machine with a stack of
  the arrays and objects that are open. \<open>None\<close> is the \<open>SyntaxError\<close>.
\<close>

datatype token =
    TLBrace | TRBrace | TLBrack | TRBrack | TColon | TComma
  | TString jsstring | TNumber jsnum | TTrue | TFalse | TNull

definition json_space :: "jschar \<Rightarrow> bool" where
  "json_space c = (c = 0x09 \<or> c = 0x0A \<or> c = 0x0D \<or> c = 0x20)"

definition hex_val :: "jschar \<Rightarrow> nat option" where
  "hex_val c =
     (if 0x30 \<le> c \<and> c \<le> 0x39 then Some (unat c - 48)
      else if 0x41 \<le> c \<and> c \<le> 0x46 then Some (unat c - 55)
      else if 0x61 \<le> c \<and> c \<le> 0x66 then Some (unat c - 87)
      else None)"

definition hex4 :: "jschar \<Rightarrow> jschar \<Rightarrow> jschar \<Rightarrow> jschar \<Rightarrow> jschar option" where
  "hex4 a b c d =
     (case (hex_val a, hex_val b, hex_val c, hex_val d) of
        (Some x, Some y, Some z, Some w) \<Rightarrow> Some (of_nat (4096 * x + 256 * y + 16 * z + w))
      | _ \<Rightarrow> None)"

text \<open>The character a one-letter escape stands for.\<close>

definition unescape :: "jschar \<Rightarrow> jschar option" where
  "unescape e =
     (if e = 0x22 \<or> e = 0x5C \<or> e = 0x2F then Some e
      else if e = 0x62 then Some 0x08
      else if e = 0x66 then Some 0x0C
      else if e = 0x6E then Some 0x0A
      else if e = 0x72 then Some 0x0D
      else if e = 0x74 then Some 0x09
      else None)"

definition cons_fst :: "'a \<Rightarrow> ('a list \<times> 'b) option \<Rightarrow> ('a list \<times> 'b) option" where
  "cons_fst c r = map_option (\<lambda>(s, rest). (c # s, rest)) r"

text \<open>
  The inside of a string literal, from after the opening quote: its code units and the
  text after the closing quote.
\<close>

fun scan_string :: "jsstring \<Rightarrow> (jsstring \<times> jsstring) option" where
  "scan_string [] = None"
| "scan_string (c # cs) =
     (if c = 0x22 then Some ([], cs)
      else if c = 0x5C then
        (case cs of
           [] \<Rightarrow> None
         | e # r \<Rightarrow>
            if e = 0x75 then
              (case r of
                 h1 # h2 # h3 # h4 # r' \<Rightarrow>
                   (case hex4 h1 h2 h3 h4 of
                      None \<Rightarrow> None
                    | Some u \<Rightarrow> cons_fst u (scan_string r'))
               | _ \<Rightarrow> None)
            else (case unescape e of
                    None \<Rightarrow> None
                  | Some u \<Rightarrow> cons_fst u (scan_string r)))
      else if c < 0x20 then None
      else cons_fst c (scan_string cs))"

lemma scan_string_shorter: "scan_string cs = Some (s, rest) \<Longrightarrow> length rest < length cs"
proof (induction cs arbitrary: s rest rule: scan_string.induct)
  case 1
  then show ?case by simp
next
  case (2 c cs)
  then show ?case
    by (auto simp: cons_fst_def split: if_splits list.splits option.splits) fastforce+
qed

text \<open>
  A number literal: an optional minus, an integer part with no leading zero, an
  optional fraction, an optional exponent. Its value is the double nearest to the
  decimal.
\<close>

definition scan_int :: "jsstring \<Rightarrow> (jsstring \<times> jsstring) option" where
  "scan_int s =
     (let ip = takeWhile is_digit s
      in if ip = [] \<or> (1 < length ip \<and> hd ip = 0x30) then None
         else Some (ip, dropWhile is_digit s))"

definition scan_frac :: "jsstring \<Rightarrow> (jsstring \<times> jsstring) option" where
  "scan_frac s =
     (if starts_with s [0x2E]
      then (if takeWhile is_digit (drop 1 s) = [] then None
            else Some (takeWhile is_digit (drop 1 s), dropWhile is_digit (drop 1 s)))
      else Some ([], s))"

definition scan_sign :: "jsstring \<Rightarrow> bool \<times> jsstring" where
  "scan_sign s =
     (if starts_with s [0x2D] then (True, drop 1 s)
      else if starts_with s [0x2B] then (False, drop 1 s)
      else (False, s))"

definition scan_exp :: "jsstring \<Rightarrow> (int \<times> jsstring) option" where
  "scan_exp s =
     (if starts_with s [0x65] \<or> starts_with s [0x45]
      then (let (eneg, s') = scan_sign (drop 1 s); ep = takeWhile is_digit s'
            in if ep = [] then None
               else Some (if eneg then - int (digits_val ep) else int (digits_val ep),
                          dropWhile is_digit s'))
      else Some (0, s))"

definition scan_number :: "jsstring \<Rightarrow> (jsnum \<times> jsstring) option" where
  "scan_number s =
     (let neg = starts_with s [0x2D]
      in case scan_int (if neg then drop 1 s else s) of
           None \<Rightarrow> None
         | Some (ip, s2) \<Rightarrow>
             (case scan_frac s2 of
                None \<Rightarrow> None
              | Some (fp, s3) \<Rightarrow>
                  (case scan_exp s3 of
                     None \<Rightarrow> None
                   | Some (e, s4) \<Rightarrow>
                       (let m = (of_nat (digits_val ip) + of_nat (digits_val fp) / 10 ^ length fp)
                                * pow10 e
                        in Some (round_double (if neg then - m else m), s4)))))"

lemma dropWhile_shorter: "takeWhile P xs \<noteq> [] \<Longrightarrow> length (dropWhile P xs) < length xs"
  by (cases xs) (auto simp: le_imp_less_Suc length_dropWhile_le split: if_splits)

lemma scan_int_shorter: "scan_int s = Some (ip, r) \<Longrightarrow> length r < length s"
  by (auto simp: scan_int_def Let_def dropWhile_shorter split: if_splits)

lemma scan_frac_shorter: "scan_frac s = Some (fp, r) \<Longrightarrow> length r \<le> length s"
  using length_dropWhile_le[of is_digit "drop 1 s"]
  by (auto simp: scan_frac_def split: if_splits)

lemma scan_sign_shorter: "scan_sign s = (b, r) \<Longrightarrow> length r \<le> length s"
  by (auto simp: scan_sign_def split: if_splits)

lemma scan_exp_shorter:
  assumes "scan_exp s = Some (e, r)"
  shows "length r \<le> length s"
proof (cases "starts_with s [0x65] \<or> starts_with s [0x45]")
  case False
  with assms show ?thesis by (simp add: scan_exp_def)
next
  case True
  obtain b s' where sg: "scan_sign (drop 1 s) = (b, s')"
    by (cases "scan_sign (drop 1 s)")
  from assms True sg have "r = dropWhile is_digit s'"
    by (auto simp: scan_exp_def Let_def split: if_splits)
  moreover have "length (dropWhile is_digit s') \<le> length s'"
    by (rule length_dropWhile_le)
  moreover have "length s' \<le> length (drop 1 s)"
    using sg by (rule scan_sign_shorter)
  ultimately show ?thesis by simp
qed

lemma scan_number_shorter:
  assumes "scan_number s = Some (n, rest)"
  shows "length rest < length s"
proof -
  let ?s1 = "if starts_with s [0x2D] then drop 1 s else s"
  from assms obtain ip s2 where i: "scan_int ?s1 = Some (ip, s2)"
    by (auto simp: scan_number_def Let_def split: option.splits)
  from assms i obtain fp s3 where f: "scan_frac s2 = Some (fp, s3)"
    by (auto simp: scan_number_def Let_def split: option.splits)
  from assms i f obtain e where x: "scan_exp s3 = Some (e, rest)"
    by (auto simp: scan_number_def Let_def split: option.splits)
  have "length ?s1 \<le> length s" by simp
  with scan_int_shorter[OF i] scan_frac_shorter[OF f] scan_exp_shorter[OF x]
  show ?thesis by linarith
qed

function lex :: "jsstring \<Rightarrow> token list option" where
  "lex [] = Some []"
| "lex (c # cs) =
     (if json_space c then lex cs
      else if c = 0x7B then map_option (Cons TLBrace) (lex cs)
      else if c = 0x7D then map_option (Cons TRBrace) (lex cs)
      else if c = 0x5B then map_option (Cons TLBrack) (lex cs)
      else if c = 0x5D then map_option (Cons TRBrack) (lex cs)
      else if c = 0x3A then map_option (Cons TColon) (lex cs)
      else if c = 0x2C then map_option (Cons TComma) (lex cs)
      else if c = 0x22 then
        (case scan_string cs of
           None \<Rightarrow> None
         | Some (s, rest) \<Rightarrow> map_option (Cons (TString s)) (lex rest))
      else if c = 0x2D \<or> is_digit c then
        (case scan_number (c # cs) of
           None \<Rightarrow> None
         | Some (n, rest) \<Rightarrow> map_option (Cons (TNumber n)) (lex rest))
      else if starts_with (c # cs) (lit ''true'') then map_option (Cons TTrue) (lex (drop 4 (c # cs)))
      else if starts_with (c # cs) (lit ''false'') then map_option (Cons TFalse) (lex (drop 5 (c # cs)))
      else if starts_with (c # cs) (lit ''null'') then map_option (Cons TNull) (lex (drop 4 (c # cs)))
      else None)"
  by pat_completeness auto
termination
proof (relation "measure length")
  fix c :: jschar and cs x2 s rest
  assume "scan_string cs = Some x2" "(s, rest) = x2"
  then show "(rest, c # cs) \<in> measure length"
    using scan_string_shorter[of cs s rest] by simp
next
  fix c :: jschar and cs x2 n rest
  assume "scan_number (c # cs) = Some x2" "(n, rest) = x2"
  then show "(rest, c # cs) \<in> measure length"
    using scan_number_shorter[of "c # cs" n rest] by simp
qed simp_all

text \<open>
  The stack: an open array with its elements so far, an open object with its
  properties so far, or an open object with the key whose value is being read.
\<close>

datatype frame =
    FArr "jsval list"
  | FObj "(jsstring \<times> jsval) list"
  | FKey "(jsstring \<times> jsval) list" jsstring

datatype mode =
    MValue | MElemOrEnd | MKeyOrEnd | MKey | MColon | MAfter | MDone jsval | MError

text \<open>
  A key that comes again replaces the value and keeps the place of the first.
\<close>

fun obj_put :: "(jsstring \<times> jsval) list \<Rightarrow> jsstring \<Rightarrow> jsval \<Rightarrow> (jsstring \<times> jsval) list" where
  "obj_put [] k v = [(k, v)]"
| "obj_put ((k', v') # fs) k v = (if k' = k then (k, v) # fs else (k', v') # obj_put fs k v)"

text \<open>A finished value goes to the container that is open, or is the result.\<close>

fun deliver :: "jsval \<Rightarrow> frame list \<Rightarrow> mode \<times> frame list" where
  "deliver v [] = (MDone v, [])"
| "deliver v (FArr xs # st) = (MAfter, FArr (xs @ [v]) # st)"
| "deliver v (FKey fs k # st) = (MAfter, FObj (obj_put fs k v) # st)"
| "deliver v (FObj fs # st) = (MError, [])"

fun open_value :: "token \<Rightarrow> frame list \<Rightarrow> mode \<times> frame list" where
  "open_value (TString s) st = deliver (JStr s) st"
| "open_value (TNumber n) st = deliver (JNum n) st"
| "open_value TTrue st = deliver (JBool True) st"
| "open_value TFalse st = deliver (JBool False) st"
| "open_value TNull st = deliver JNull st"
| "open_value TLBrack st = (MElemOrEnd, FArr [] # st)"
| "open_value TLBrace st = (MKeyOrEnd, FObj [] # st)"
| "open_value t st = (MError, [])"

fun close_array :: "frame list \<Rightarrow> mode \<times> frame list" where
  "close_array (FArr xs # st) = deliver (JArr xs) st"
| "close_array st = (MError, [])"

fun close_object :: "frame list \<Rightarrow> mode \<times> frame list" where
  "close_object (FObj fs # st) = deliver (JObj fs) st"
| "close_object st = (MError, [])"

fun read_key :: "frame list \<Rightarrow> token \<Rightarrow> mode \<times> frame list" where
  "read_key (FObj fs # st) (TString k) = (MColon, FKey fs k # st)"
| "read_key st t = (MError, [])"

fun after_value :: "frame list \<Rightarrow> token \<Rightarrow> mode \<times> frame list" where
  "after_value (FArr xs # st) TComma = (MValue, FArr xs # st)"
| "after_value (FObj fs # st) TComma = (MKey, FObj fs # st)"
| "after_value st TRBrack = close_array st"
| "after_value st TRBrace = close_object st"
| "after_value st t = (MError, [])"

text \<open>
  One token: a value where one is expected; after \<open>[\<close> a value or \<open>]\<close>;
  after \<open>{\<close> a key or \<open>}\<close>; after a comma in an object a key; after a
  key the colon; after a value a comma or the bracket that closes the open container;
  after the whole value nothing.
\<close>

fun step :: "mode \<Rightarrow> frame list \<Rightarrow> token \<Rightarrow> mode \<times> frame list" where
  "step MValue st t = open_value t st"
| "step MElemOrEnd st t = (if t = TRBrack then close_array st else open_value t st)"
| "step MKeyOrEnd st t = (if t = TRBrace then close_object st else read_key st t)"
| "step MKey st t = read_key st t"
| "step MColon st t = (if t = TColon then (MValue, st) else (MError, []))"
| "step MAfter st t = after_value st t"
| "step (MDone v) st t = (MError, [])"
| "step MError st t = (MError, [])"

fun run :: "mode \<times> frame list \<Rightarrow> token list \<Rightarrow> mode \<times> frame list" where
  "run s [] = s"
| "run (m, st) (t # ts) = run (step m st t) ts"

definition parse_tokens :: "token list \<Rightarrow> jsval option" where
  "parse_tokens ts = (case run (MValue, []) ts of (MDone v, st) \<Rightarrow> Some v | _ \<Rightarrow> None)"

definition json_parse :: "jsstring \<Rightarrow> jsval option" where
  "json_parse s = (case lex s of None \<Rightarrow> None | Some ts \<Rightarrow> parse_tokens ts)"

text \<open>\<open>JSON.parse(text)\<close> as the source calls it: a value, or the throw.\<close>

definition JSON_parse :: "jsstring \<Rightarrow> jserror + jsval" where
  "JSON_parse s = (case json_parse s of None \<Rightarrow> Inl SyntaxError | Some v \<Rightarrow> Inr v)"

subsection \<open>Two notions for the proofs about the parser\<close>

text \<open>
  \<open>keep c\<close> puts a code unit back at the end of the text a scanner left over, and
  \<open>arr_bottom\<close> says of a stack that the outermost open container is an array.
\<close>

definition keep :: "jschar \<Rightarrow> ('a \<times> jsstring) option \<Rightarrow> ('a \<times> jsstring) option" where
  "keep c r = map_option (\<lambda>(x, rest). (x, rest @ [c])) r"

definition arr_bottom :: "frame list \<Rightarrow> bool" where
  "arr_bottom st = (st \<noteq> [] \<and> (\<exists>xs. last st = FArr xs))"

subsection \<open>\<open>JSON.stringify\<close>\<close>

definition hex_digit :: "nat \<Rightarrow> jschar" where
  "hex_digit n = (if n < 10 then of_nat (48 + n) else of_nat (87 + n))"

definition unicode_escape :: "jschar \<Rightarrow> jsstring" where
  "unicode_escape c =
     [0x5C, 0x75, hex_digit (unat c div 4096), hex_digit (unat c div 256 mod 16),
      hex_digit (unat c div 16 mod 16), hex_digit (unat c mod 16)]"

definition high_surrogate :: "jschar \<Rightarrow> bool" where
  "high_surrogate c = (0xD800 \<le> c \<and> c \<le> 0xDBFF)"

definition low_surrogate :: "jschar \<Rightarrow> bool" where
  "low_surrogate c = (0xDC00 \<le> c \<and> c \<le> 0xDFFF)"

text \<open>
  The inside of a quoted string: the short escapes, \<open>\u00XX\<close> for the other
  control characters and \<open>\uXXXX\<close> for a surrogate that has no partner.
\<close>

fun quote_units :: "jsstring \<Rightarrow> jsstring" where
  "quote_units [] = []"
| "quote_units (c # cs) =
     (if c = 0x08 then [0x5C, 0x62] @ quote_units cs
      else if c = 0x09 then [0x5C, 0x74] @ quote_units cs
      else if c = 0x0A then [0x5C, 0x6E] @ quote_units cs
      else if c = 0x0C then [0x5C, 0x66] @ quote_units cs
      else if c = 0x0D then [0x5C, 0x72] @ quote_units cs
      else if c = 0x22 then [0x5C, 0x22] @ quote_units cs
      else if c = 0x5C then [0x5C, 0x5C] @ quote_units cs
      else if c < 0x20 \<or> low_surrogate c then unicode_escape c @ quote_units cs
      else if high_surrogate c then
        (case cs of
           [] \<Rightarrow> unicode_escape c
         | d # r \<Rightarrow>
            if low_surrogate d then c # d # quote_units r
            else unicode_escape c @ quote_units cs)
      else c # quote_units cs)"

definition quote_json :: "jsstring \<Rightarrow> jsstring" where
  "quote_json s = [0x22] @ quote_units s @ [0x22]"

text \<open>
  The own properties in the order they are enumerated: the keys that are array
  indices first, ascending, then the others as they were inserted. An entry behind
  another with its key is no property.
\<close>

definition first_entries :: "(jsstring \<times> 'a) list \<Rightarrow> (jsstring \<times> 'a) list" where
  "first_entries fs =
     foldl (\<lambda>acc e. if fst e \<in> set (map fst acc) then acc else acc @ [e]) [] fs"

definition own_entries :: "(jsstring \<times> 'a) list \<Rightarrow> (jsstring \<times> 'a) list" where
  "own_entries fs =
     (let es = first_entries fs
      in sort_key (\<lambda>e. the (array_index (fst e))) (filter (\<lambda>e. array_index (fst e) \<noteq> None) es)
         @ filter (\<lambda>e. array_index (fst e) = None) es)"

text \<open>
  \<open>JSON.stringify(v)\<close> with no replacer and no indentation; \<open>None\<close> is the
  result \<open>undefined\<close>. In an array \<open>undefined\<close> is written \<open>null\<close>, in
  an object a property with that value is left out, and a number that is not finite is
  \<open>null\<close>.
\<close>

fun stringify :: "jsval \<Rightarrow> jsstring option" where
  "stringify JUndefined = None"
| "stringify JNull = Some (lit ''null'')"
| "stringify (JBool b) = Some (if b then lit ''true'' else lit ''false'')"
| "stringify (JNum n) = Some (case n of Finite x \<Rightarrow> num_to_string n | _ \<Rightarrow> lit ''null'')"
| "stringify (JStr s) = Some (quote_json s)"
| "stringify (JArr xs) =
     Some ([0x5B]
           @ join_with [0x2C]
               (map (\<lambda>v. case stringify v of None \<Rightarrow> lit ''null'' | Some s \<Rightarrow> s) xs)
           @ [0x5D])"
| "stringify (JObj fs) =
     Some ([0x7B]
           @ join_with [0x2C]
               (List.map_filter
                  (\<lambda>e. map_option (\<lambda>s. quote_json (fst e) @ [0x3A] @ s) (snd e))
                  (own_entries (map (\<lambda>(k, v). (k, stringify v)) fs)))
           @ [0x7D])"

text \<open>
  The code points a \<open>for ... of\<close> over a string yields: a surrogate pair is one
  item, every other code unit is one.
\<close>

fun code_points :: "jsstring \<Rightarrow> jsstring list" where
  "code_points [] = []"
| "code_points [c] = [[c]]"
| "code_points (c # d # cs) =
     (if high_surrogate c \<and> low_surrogate d then [c, d] # code_points cs
      else [c] # code_points (d # cs))"

section \<open>Quota errors (\<open>generateCoverLetter\<close>)\<close>

text \<open>
  \<^verbatim>\<open>msg && msg.trim().startsWith("{") ? JSON.parse(msg) : null\<close> for a string
  \<open>msg\<close>.
\<close>

definition parse_braced :: "jsstring \<Rightarrow> jserror + jsval" where
  "parse_braced msg =
     (if msg \<noteq> [] \<and> starts_with (trim msg) [0x7B] then JSON_parse msg else Inr JNull)"

text \<open>\<open>v.includes(s)\<close> of a string or of an array; nothing else has the method.\<close>

definition includes_of :: "jsval \<Rightarrow> jsstring \<Rightarrow> jserror + bool" where
  "includes_of v s =
     (case v of
        JStr t \<Rightarrow> Inr (str_includes t s)
      | JArr xs \<Rightarrow> Inr (JStr s \<in> set xs)
      | _ \<Rightarrow> Inl TypeError)"

text \<open>What \<open>for (const d of v)\<close> runs over; only arrays and strings are iterable.\<close>

definition iter_items :: "jsval \<Rightarrow> jserror + jsval list" where
  "iter_items v =
     (case v of
        JArr xs \<Rightarrow> Inr xs
      | JStr s \<Rightarrow> Inr (map JStr (code_points s))
      | _ \<Rightarrow> Inl TypeError)"

text \<open>
  One round of the loop of \<open>parseRetryMs\<close>:
  \<^verbatim>\<open>
  if (d['@type'] && d['@type'].includes('RetryInfo') && d.retryDelay) {
    const m = /([0-9]+(?:\.[0-9]+)?)s/.exec(d.retryDelay);
    if (m) return Math.ceil(parseFloat(m[1]) * 1000);
  }
  \<close>
  \<open>Inr (Some n)\<close> is the \<open>return\<close>, \<open>Inr None\<close> goes on to the next
  entry, \<open>Inl\<close> is a throw.
\<close>

definition retry_of_detail :: "jsval \<Rightarrow> jserror + jsnum option" where
  "retry_of_detail d =
     (case sget d (lit ''@type'') of
        Inl e \<Rightarrow> Inl e
      | Inr ty \<Rightarrow>
          if \<not> truthy ty then Inr None
          else (case includes_of ty (lit ''RetryInfo'') of
                  Inl e \<Rightarrow> Inl e
                | Inr b \<Rightarrow>
                    if \<not> b \<or> \<not> truthy (getp d (lit ''retryDelay'')) then Inr None
                    else (case to_string (getp d (lit ''retryDelay'')) of
                            None \<Rightarrow> Inl TypeError
                          | Some s \<Rightarrow>
                              (case delay_exec s of
                                 None \<Rightarrow> Inr None
                               | Some m \<Rightarrow>
                                   Inr (Some (js_ceil (js_mul (parse_float m) (Finite 1000))))))))"

fun retry_loop :: "jsval list \<Rightarrow> jserror + jsnum option" where
  "retry_loop [] = Inr None"
| "retry_loop (d # ds) =
     (case retry_of_detail d of
        Inl e \<Rightarrow> Inl e
      | Inr (Some n) \<Rightarrow> Inr (Some n)
      | Inr None \<Rightarrow> retry_loop ds)"

text \<open>
  The body of the \<open>try\<close> of \<open>parseRetryMs\<close>:
  \<^verbatim>\<open>
  const msg = typeof err?.message === "string" ? err.message : null;
  const parsed = msg && msg.trim().startsWith("{") ? JSON.parse(msg) : null;
  const details = parsed?.error?.details || [];
  for (const d of details) { ... }
  \<close>
\<close>

definition parseRetryMs_try :: "jsval \<Rightarrow> jserror + jsnum option" where
  "parseRetryMs_try err =
     (case (case oget err (lit ''message'') of JStr msg \<Rightarrow> parse_braced msg | _ \<Rightarrow> Inr JNull) of
        Inl e \<Rightarrow> Inl e
      | Inr parsed \<Rightarrow>
          (let details = oget (oget parsed (lit ''error'')) (lit ''details'')
           in case (if truthy details then iter_items details else Inr []) of
                Inl e \<Rightarrow> Inl e
              | Inr ds \<Rightarrow> retry_loop ds))"

text \<open>\<open>parseRetryMs\<close>: the handler swallows every throw; what is left returns 0.\<close>

definition parseRetryMs :: "jsval \<Rightarrow> jsnum" where
  "parseRetryMs err = (case parseRetryMs_try err of Inr (Some n) \<Rightarrow> n | _ \<Rightarrow> Finite 0)"

text \<open>
  \<open>isQuotaError\<close>:
  \<^verbatim>\<open>
  if (!err) return false;
  if (err?.status === 429) return true;
  const msg = typeof err?.message === "string" ? err.message : JSON.stringify(err);
  if (msg.includes('RESOURCE_EXHAUSTED') || msg.includes('Quota exceeded')) return true;
  try {
    const parsed = msg && msg.trim().startsWith("{") ? JSON.parse(msg) : null;
    if (parsed?.error?.code === 429) return true;
    if (parsed?.error?.status === 'RESOURCE_EXHAUSTED') return true;
  } catch (e) {}
  return false;
  \<close>
  Only the parse is inside the \<open>try\<close>: \<open>msg.includes\<close> on a serialisation
  that came out \<open>undefined\<close> would throw to the caller.
\<close>

definition quota_message :: "jsval \<Rightarrow> jsstring option" where
  "quota_message err =
     (case oget err (lit ''message'') of JStr msg \<Rightarrow> Some msg | _ \<Rightarrow> stringify err)"

definition quota_in_json :: "jsstring \<Rightarrow> bool" where
  "quota_in_json msg =
     (case parse_braced msg of
        Inl e \<Rightarrow> False
      | Inr parsed \<Rightarrow>
          oget (oget parsed (lit ''error'')) (lit ''code'') = JNum (Finite 429)
          \<or> oget (oget parsed (lit ''error'')) (lit ''status'') = JStr (lit ''RESOURCE_EXHAUSTED''))"

definition isQuotaError :: "jsval \<Rightarrow> jserror + bool" where
  "isQuotaError err =
     (if \<not> truthy err then Inr False
      else if oget err (lit ''status'') = JNum (Finite 429) then Inr True
      else case quota_message err of
             None \<Rightarrow> Inl TypeError
           | Some msg \<Rightarrow>
               Inr (str_includes msg (lit ''RESOURCE_EXHAUSTED'')
                    \<or> str_includes msg (lit ''Quota exceeded'')
                    \<or> quota_in_json msg))"

section \<open>The collaborators and the state\<close>

text \<open>
  The actions talk to the text backend, the clock, the authentication service and the
  database. Each is a function of the state of the world outside, \<open>'w\<close>, that
  gives the new state and either the value the call resolved to (\<open>Inr\<close>) or the
  value it rejected with (\<open>Inl\<close>). The backend takes the model name and the
  prompt. A prompt is a template with fixed text; the model keeps the strings put
  into it, in order, and leaves the fixed text out. Logging to the console is not
  modelled.
\<close>

record 'w services =
  generateContent :: "jsstring \<Rightarrow> jsstring list \<Rightarrow> 'w \<Rightarrow> (jsval + jsval) \<times> 'w"
  pause :: "jsnum \<Rightarrow> 'w \<Rightarrow> 'w"
  auth :: "'w \<Rightarrow> (jsval + jsval) \<times> 'w"
  user_findUnique :: "jsval \<Rightarrow> 'w \<Rightarrow> (jsval + jsval) \<times> 'w"
  coverLetter_create :: "jsval \<Rightarrow> 'w \<Rightarrow> (jsval + jsval) \<times> 'w"
  assessment_create :: "jsval \<Rightarrow> 'w \<Rightarrow> (jsval + jsval) \<times> 'w"
  industryInsight_findMany :: "'w \<Rightarrow> (jsval + jsval) \<times> 'w"
  industryInsight_update :: "jsval \<Rightarrow> jsval \<Rightarrow> 'w \<Rightarrow> (jsval + jsval) \<times> 'w"

text \<open>What a run did to the backend and the clock, in order.\<close>

datatype event = Invoke jsstring | Wait jsnum

record 'w state =
  world :: 'w
  trace :: "event list"

definition call :: "('w \<Rightarrow> (jsval + jsval) \<times> 'w) \<Rightarrow> 'w state \<Rightarrow> (jserror + jsval) \<times> 'w state" where
  "call f s =
     (case f (world s) of
        (Inl v, w) \<Rightarrow> (Inl (Thrown v), s\<lparr>world := w\<rparr>)
      | (Inr v, w) \<Rightarrow> (Inr v, s\<lparr>world := w\<rparr>))"

text \<open>Sequencing: a throw ends the run where it is.\<close>

definition bnd ::
  "(jserror + 'a) \<times> 's \<Rightarrow> ('a \<Rightarrow> 's \<Rightarrow> (jserror + 'b) \<times> 's) \<Rightarrow> (jserror + 'b) \<times> 's" where
  "bnd r f = (case r of (Inl e, s) \<Rightarrow> (Inl e, s) | (Inr a, s) \<Rightarrow> f a s)"

text \<open>
  \<^verbatim>\<open>model.generateContent({ model: modelName, contents: prompt })\<close>, awaited:
  the response, or the value it rejected with.
\<close>

definition attemptGenerate ::
  "'w services \<Rightarrow> jsstring \<Rightarrow> jsstring list \<Rightarrow> 'w state \<Rightarrow> (jsval + jsval) \<times> 'w state" where
  "attemptGenerate svc modelName prompt s =
     (case generateContent svc modelName prompt (world s) of
        (r, w) \<Rightarrow> (r, s\<lparr>world := w, trace := trace s @ [Invoke modelName]\<rparr>))"

definition preferredModel :: jsstring where
  "preferredModel = lit ''gemini-2.5-pro''"

definition fallbackModel :: jsstring where
  "fallbackModel = lit ''gemini-2.0-flash''"

text \<open>\<^verbatim>\<open>if (waitMs > 0) await new Promise((r) => setTimeout(r, waitMs));\<close>\<close>

definition wait_for :: "'w services \<Rightarrow> jsnum \<Rightarrow> 'w state \<Rightarrow> 'w state" where
  "wait_for svc waitMs s =
     (if js_positive waitMs
      then s\<lparr>world := pause svc waitMs (world s), trace := trace s @ [Wait waitMs]\<rparr>
      else s)"

text \<open>
  The call with its fallback, in \<open>generateCoverLetter\<close>:
  \<^verbatim>\<open>
  try { result = await attemptGenerate(preferredModel); }
  catch (err) {
    if (isQuotaError(err)) {
      const waitMs = parseRetryMs(err);
      if (waitMs > 0) await new Promise((r) => setTimeout(r, waitMs));
      try { result = await attemptGenerate(fallbackModel); }
      catch (err2) { ...; throw err2; }
    } else { throw err; }
  }
  \<close>
\<close>

definition invoke_with_fallback ::
  "'w services \<Rightarrow> jsstring list \<Rightarrow> 'w state \<Rightarrow> (jserror + jsval) \<times> 'w state" where
  "invoke_with_fallback svc prompt s =
     (case attemptGenerate svc preferredModel prompt s of
        (Inr result, s1) \<Rightarrow> (Inr result, s1)
      | (Inl err, s1) \<Rightarrow>
          (case isQuotaError err of
             Inl e \<Rightarrow> (Inl e, s1)
           | Inr False \<Rightarrow> (Inl (Thrown err), s1)
           | Inr True \<Rightarrow>
               (case attemptGenerate svc fallbackModel prompt (wait_for svc (parseRetryMs err) s1) of
                  (Inr result, s2) \<Rightarrow> (Inr result, s2)
                | (Inl err2, s2) \<Rightarrow> (Inl (Thrown err2), s2))))"

text \<open>The models a run invoked, in order.\<close>

fun invoked :: "event list \<Rightarrow> jsstring list" where
  "invoked [] = []"
| "invoked (Invoke m # es) = m # invoked es"
| "invoked (Wait n # es) = invoked es"

section \<open>The actions\<close>

text \<open>The values put into a template literal, each converted to a string.\<close>

definition template :: "jsval list \<Rightarrow> jserror + jsstring list" where
  "template vs = (case those (map to_string vs) of None \<Rightarrow> Inl TypeError | Some ss \<Rightarrow> Inr ss)"

text \<open>
  The start of every action but \<open>generateAIInsights\<close>:
  \<^verbatim>\<open>
  const { userId } = await auth();
  if (!userId) throw new Error("Unauthorized");
  const user = await db.user.findUnique({ where: { clerkUserId: userId }, ... });
  if (!user) throw new Error("User not found");
  \<close>
\<close>

definition current_user :: "'w services \<Rightarrow> 'w state \<Rightarrow> (jserror + jsval) \<times> 'w state" where
  "current_user svc s =
     bnd (call (auth svc) s) (\<lambda>a s1.
       if nullish a then (Inl TypeError, s1)
       else if \<not> truthy (getp a (lit ''userId'')) then (Inl (Error (lit ''Unauthorized'')), s1)
       else bnd (call (user_findUnique svc (getp a (lit ''userId''))) s1) (\<lambda>user s2.
              if \<not> truthy user then (Inl (Error (lit ''User not found'')), s2)
              else (Inr user, s2)))"

subsection \<open>\<open>generateAIInsights\<close> and the scheduled \<open>generateIndustryInsights\<close>\<close>

text \<open>
  \<^verbatim>\<open>
  const cleanedText = text.replace(/```(?:json)?\n?/g, "").trim();
  return JSON.parse(cleanedText);
  \<close>
\<close>

definition json_extract :: "jsstring \<Rightarrow> jserror + jsval" where
  "json_extract text = JSON_parse (trim (strip_fences text))"

definition generateAIInsights ::
  "'w services \<Rightarrow> jsval \<Rightarrow> 'w state \<Rightarrow> (jserror + jsval) \<times> 'w state" where
  "generateAIInsights svc industry s =
     (case template [industry] of
        Inl e \<Rightarrow> (Inl e, s)
      | Inr prompt \<Rightarrow>
          (case attemptGenerate svc (lit ''gemini-2.5-pro'') prompt s of
             (Inl err, s1) \<Rightarrow> (Inl (Thrown err), s1)
           | (Inr result, s1) \<Rightarrow>
               (case extract_text result of
                  Inl e \<Rightarrow> (Inl e, s1)
                | Inr text \<Rightarrow> (json_extract text, s1))))"

text \<open>
  One round of the loop of \<open>generateIndustryInsights\<close> over the rows the database
  gave, \<open>for (const { industry } of industries)\<close>: the prompt, the call, the text,
  the parse, the update of the row. The wrappers of the scheduler (\<open>step.run\<close>,
  \<open>step.ai.wrap\<close>) run what they are given.
\<close>

definition insights_round ::
  "'w services \<Rightarrow> jsval \<Rightarrow> 'w state \<Rightarrow> (jserror + jsval) \<times> 'w state" where
  "insights_round svc row s =
     (if nullish row then (Inl TypeError, s)
      else bnd (generateAIInsights svc (getp row (lit ''industry'')) s) (\<lambda>insights s1.
             call (industryInsight_update svc (getp row (lit ''industry'')) insights) s1))"

fun insights_loop ::
  "'w services \<Rightarrow> jsval list \<Rightarrow> 'w state \<Rightarrow> (jserror + jsval) \<times> 'w state" where
  "insights_loop svc [] s = (Inr JUndefined, s)"
| "insights_loop svc (row # rows) s =
     bnd (insights_round svc row s) (\<lambda>r s1. insights_loop svc rows s1)"

definition generateIndustryInsights ::
  "'w services \<Rightarrow> 'w state \<Rightarrow> (jserror + jsval) \<times> 'w state" where
  "generateIndustryInsights svc s =
     bnd (call (industryInsight_findMany svc) s) (\<lambda>industries s1.
       case iter_items industries of
         Inl e \<Rightarrow> (Inl e, s1)
       | Inr rows \<Rightarrow> insights_loop svc rows s1)"

text \<open>
  A text in a markdown code fence: three backticks, with or without the \<open>json\<close>
  tag, a line feed, the text, a line feed, three backticks.
\<close>

definition fenced :: "bool \<Rightarrow> jsstring \<Rightarrow> jsstring" where
  "fenced tagged t = fence @ (if tagged then lit ''json'' else []) @ [0x0A] @ t @ [0x0A] @ fence"

subsection \<open>\<open>generateQuiz\<close>\<close>

text \<open>
  \<^verbatim>\<open>
  const cleaned = text.replace(/```json|```/g, "").trim();
  const quiz = JSON.parse(cleaned);
  return quiz.questions;
  \<close>
\<close>

definition json_extract_quiz :: "jsstring \<Rightarrow> jserror + jsval" where
  "json_extract_quiz text = JSON_parse (trim (strip_fences_quiz text))"

text \<open>
  The skills in the prompt:
  \<^verbatim>\<open>user.skills?.length ? ` with expertise in ${user.skills.join(", ")}` : ""\<close>
\<close>

definition quiz_skills :: "jsval \<Rightarrow> jserror + jsval" where
  "quiz_skills user =
     (if \<not> truthy (oget (getp user (lit ''skills'')) (lit ''length'')) then Inr (JStr [])
      else case getp user (lit ''skills'') of
             JArr xs \<Rightarrow> (case array_join (lit '', '') xs of Inl e \<Rightarrow> Inl e | Inr j \<Rightarrow> Inr (JStr j))
           | _ \<Rightarrow> Inl TypeError)"

definition generateQuiz :: "'w services \<Rightarrow> 'w state \<Rightarrow> (jserror + jsval) \<times> 'w state" where
  "generateQuiz svc s =
     bnd (current_user svc s) (\<lambda>user s1.
       case quiz_skills user of
         Inl e \<Rightarrow> (Inl e, s1)
       | Inr skills \<Rightarrow>
           (case template [getp user (lit ''industry''), skills] of
              Inl e \<Rightarrow> (Inl e, s1)
            | Inr prompt \<Rightarrow>
                (case (case attemptGenerate svc (lit ''gemini-2.5-pro'') prompt s1 of
                         (Inl err, s2) \<Rightarrow> (Inl (Thrown err), s2)
                       | (Inr result, s2) \<Rightarrow>
                           (case extract_text result of
                              Inl e \<Rightarrow> (Inl e, s2)
                            | Inr text \<Rightarrow>
                                (case json_extract_quiz text of
                                   Inl e \<Rightarrow> (Inl e, s2)
                                 | Inr quiz \<Rightarrow> (sget quiz (lit ''questions''), s2)))) of
                   (Inl e, s3) \<Rightarrow> (Inl (Error (lit ''Failed to generate quiz questions'')), s3)
                 | (Inr qs, s3) \<Rightarrow> (Inr qs, s3))))"

subsection \<open>\<open>generateCoverLetter\<close>\<close>

text \<open>\<^verbatim>\<open>user.skills?.join(", ")\<close>\<close>

definition skills_joined :: "jsval \<Rightarrow> jserror + jsval" where
  "skills_joined user =
     (if nullish (getp user (lit ''skills'')) then Inr JUndefined
      else case getp user (lit ''skills'') of
             JArr xs \<Rightarrow> (case array_join (lit '', '') xs of Inl e \<Rightarrow> Inl e | Inr j \<Rightarrow> Inr (JStr j))
           | _ \<Rightarrow> Inl TypeError)"

definition cover_letter_prompt :: "jsval \<Rightarrow> jsval \<Rightarrow> jserror + jsstring list" where
  "cover_letter_prompt data user =
     (if nullish data then Inl TypeError
      else case skills_joined user of
             Inl e \<Rightarrow> Inl e
           | Inr skills \<Rightarrow>
               template [getp data (lit ''jobTitle''), getp data (lit ''companyName''),
                         getp user (lit ''industry''), getp user (lit ''experience''), skills,
                         getp user (lit ''bio''), getp data (lit ''jobDescription'')])"

text \<open>The row \<open>db.coverLetter.create\<close> is given.\<close>

definition cover_letter_row :: "jsstring \<Rightarrow> jsval \<Rightarrow> jsval \<Rightarrow> jsval" where
  "cover_letter_row content data user =
     JObj [(lit ''data'', JObj
       [(lit ''content'', JStr content),
        (lit ''jobDescription'', getp data (lit ''jobDescription'')),
        (lit ''companyName'', getp data (lit ''companyName'')),
        (lit ''jobTitle'', getp data (lit ''jobTitle'')),
        (lit ''status'', JStr (lit ''completed'')),
        (lit ''userId'', getp user (lit ''id''))])]"

text \<open>The body of the outer \<open>try\<close>: the call, the text, the row.\<close>

definition cover_letter_try ::
  "'w services \<Rightarrow> jsstring list \<Rightarrow> jsval \<Rightarrow> jsval \<Rightarrow> 'w state \<Rightarrow> (jserror + jsval) \<times> 'w state" where
  "cover_letter_try svc prompt data user s =
     bnd (invoke_with_fallback svc prompt s) (\<lambda>result s1.
       case extract_content result of
         Inl e \<Rightarrow> (Inl e, s1)
       | Inr content \<Rightarrow> call (coverLetter_create svc (cover_letter_row content data user)) s1)"

text \<open>
  \<open>generateCoverLetter\<close>; the handler of the outer \<open>try\<close> is
  \<^verbatim>\<open>catch (error) { ...; throw new Error("Failed to generate cover letter"); }\<close>
\<close>

definition generateCoverLetter ::
  "'w services \<Rightarrow> jsval \<Rightarrow> 'w state \<Rightarrow> (jserror + jsval) \<times> 'w state" where
  "generateCoverLetter svc data s =
     bnd (current_user svc s) (\<lambda>user s1.
       case cover_letter_prompt data user of
         Inl e \<Rightarrow> (Inl e, s1)
       | Inr prompt \<Rightarrow>
           (case cover_letter_try svc prompt data user s1 of
              (Inl e, s2) \<Rightarrow> (Inl (Error (lit ''Failed to generate cover letter'')), s2)
            | (Inr letter, s2) \<Rightarrow> (Inr letter, s2)))"

subsection \<open>\<open>saveQuizResult\<close>\<close>

text \<open>
  \<open>a === b\<close>. Two objects or arrays are equal when they are the same object; the
  answers and the questions arrive as separate values, so none of theirs is.
\<close>

fun strict_eq :: "jsval \<Rightarrow> jsval \<Rightarrow> bool" where
  "strict_eq JUndefined JUndefined = True"
| "strict_eq JNull JNull = True"
| "strict_eq (JBool a) (JBool b) = (a = b)"
| "strict_eq (JNum a) (JNum b) = (a = b \<and> a \<noteq> NaN)"
| "strict_eq (JStr a) (JStr b) = (a = b)"
| "strict_eq a b = False"

text \<open>
  \<^verbatim>\<open>
  (q, index) => ({ question: q.question, answer: q.correctAnswer,
                   userAnswer: answers[index],
                   isCorrect: q.correctAnswer === answers[index],
                   explanation: q.explanation })
  \<close>
\<close>

definition question_result :: "jsval \<Rightarrow> jsval \<Rightarrow> nat \<Rightarrow> jserror + jsval" where
  "question_result answers q index =
     (if nullish q \<or> nullish answers then Inl TypeError
      else Inr (JObj
        [(lit ''question'', getp q (lit ''question'')),
         (lit ''answer'', getp q (lit ''correctAnswer'')),
         (lit ''userAnswer'', getp answers (nat_digits index)),
         (lit ''isCorrect'',
            JBool (strict_eq (getp q (lit ''correctAnswer'')) (getp answers (nat_digits index)))),
         (lit ''explanation'', getp q (lit ''explanation''))]))"

fun question_results :: "jsval \<Rightarrow> jsval list \<Rightarrow> nat \<Rightarrow> jserror + jsval list" where
  "question_results answers [] index = Inr []"
| "question_results answers (q # qs) index =
     (case question_result answers q index of
        Inl e \<Rightarrow> Inl e
      | Inr r \<Rightarrow>
          (case question_results answers qs (Suc index) of
             Inl e \<Rightarrow> Inl e
           | Inr rs \<Rightarrow> Inr (r # rs)))"

text \<open>What the tip prompt takes from one wrong answer.\<close>

definition wrong_question :: "jsval \<Rightarrow> jsval list" where
  "wrong_question r =
     [getp r (lit ''question''), getp r (lit ''answer''), getp r (lit ''userAnswer'')]"

text \<open>
  The optional tip:
  \<^verbatim>\<open>
  try { const tipResult = await model.generateContent(...); ...; improvementTip = tipText.trim(); }
  catch (err) { console.error("Error generating improvement tip:", err); }
  \<close>
  The tip stays \<open>null\<close> when anything in the \<open>try\<close> throws.
\<close>

definition improvement_tip :: "'w services \<Rightarrow> jsstring list \<Rightarrow> 'w state \<Rightarrow> jsval \<times> 'w state" where
  "improvement_tip svc prompt s =
     (case attemptGenerate svc (lit ''gemini-2.5-pro'') prompt s of
        (Inl err, s1) \<Rightarrow> (JNull, s1)
      | (Inr tipResult, s1) \<Rightarrow>
          (case extract_text tipResult of
             Inl e \<Rightarrow> (JNull, s1)
           | Inr tipText \<Rightarrow> (JStr (trim tipText), s1)))"

definition assessment_row :: "jsval \<Rightarrow> jsval \<Rightarrow> jsval list \<Rightarrow> jsval \<Rightarrow> jsval" where
  "assessment_row user score results tip =
     JObj [(lit ''data'', JObj
       [(lit ''userId'', getp user (lit ''id'')),
        (lit ''quizScore'', score),
        (lit ''questions'', JArr results),
        (lit ''category'', JStr (lit ''Technical'')),
        (lit ''improvementTip'', tip)])]"

definition save_assessment ::
  "'w services \<Rightarrow> jsval \<Rightarrow> 'w state \<Rightarrow> (jserror + jsval) \<times> 'w state" where
  "save_assessment svc row s =
     (case call (assessment_create svc row) s of
        (Inl e, s1) \<Rightarrow> (Inl (Error (lit ''Failed to save quiz result'')), s1)
      | (Inr a, s1) \<Rightarrow> (Inr a, s1))"

definition is_wrong :: "jsval \<Rightarrow> bool" where
  "is_wrong r = (\<not> truthy (getp r (lit ''isCorrect'')))"

definition saveQuizResult ::
  "'w services \<Rightarrow> jsval \<Rightarrow> jsval \<Rightarrow> jsval \<Rightarrow> 'w state \<Rightarrow> (jserror + jsval) \<times> 'w state" where
  "saveQuizResult svc questions answers score s =
     bnd (current_user svc s) (\<lambda>user s1.
       case (case questions of JArr qs \<Rightarrow> question_results answers qs 0 | _ \<Rightarrow> Inl TypeError) of
         Inl e \<Rightarrow> (Inl e, s1)
       | Inr results \<Rightarrow>
           if filter is_wrong results = []
           then save_assessment svc (assessment_row user score results JNull) s1
           else (case template (concat (map wrong_question (filter is_wrong results))) of
                   Inl e \<Rightarrow> (Inl e, s1)
                 | Inr prompt \<Rightarrow>
                     (case improvement_tip svc prompt s1 of
                        (tip, s2) \<Rightarrow>
                          save_assessment svc (assessment_row user score results tip) s2)))"

section \<open>A scripted world\<close>

text \<open>
  For running the actions on concrete inputs: the world is the list of the outcomes
  the backend still has to give, one per call; a backend with nothing left rejects
  with \<open>undefined\<close>. There is one signed-in user; the database stores nothing and
  gives back the row it was handed.
\<close>

definition the_user :: jsval where
  "the_user = JObj [(lit ''id'', JStr (lit ''u1'')), (lit ''industry'', JStr (lit ''tech''))]"

definition scripted :: "(jsval + jsval) list services" where
  "scripted =
     \<lparr>generateContent = (\<lambda>m p w. case w of [] \<Rightarrow> (Inl JUndefined, []) | r # rs \<Rightarrow> (r, rs)),
      pause = (\<lambda>n w. w),
      auth = (\<lambda>w. (Inr (JObj [(lit ''userId'', JStr (lit ''c1''))]), w)),
      user_findUnique = (\<lambda>q w. (Inr the_user, w)),
      coverLetter_create = (\<lambda>row w. (Inr row, w)),
      assessment_create = (\<lambda>row w. (Inr row, w)),
      industryInsight_findMany =
        (\<lambda>w. (Inr (JArr [JObj [(lit ''industry'', JStr (lit ''tech''))],
                           JObj [(lit ''industry'', JStr (lit ''law''))]]), w)),
      industryInsight_update = (\<lambda>i v w. (Inr v, w))\<rparr>"

definition start :: "(jsval + jsval) list \<Rightarrow> (jsval + jsval) list state" where
  "start w = \<lparr>world = w, trace = []\<rparr>"

text \<open>The response with a direct text, and a backend error with a status and a message.\<close>

definition text_response :: "string \<Rightarrow> jsval" where
  "text_response t = JObj [(lit ''text'', JStr (lit t))]"

definition api_error :: "rat \<Rightarrow> string \<Rightarrow> jsval" where
  "api_error status msg =
     JObj [(lit ''status'', JNum (Finite status)), (lit ''message'', JStr (lit msg))]"

text \<open>
  The message of a quota error as the backend words it, with a retry delay of two
  seconds.
\<close>

definition quota_body :: string where
  \<open>quota_body = ''{"error":{"code":429,"status":"RESOURCE_EXHAUSTED","details":[{"@type":"type.googleapis.com/google.rpc.RetryInfo","retryDelay":"2s"}]}}''\<close>

section \<open>Rounding to a double\<close>

text \<open>
  \<open>flog 2\<close> finds the binade of a positive rational, so \<open>round_double\<close>
  can be computed from the exponent and the significand: a value whose scaled
  significand is within a half of an integer rounds to that integer, and everything
  from \<open>2^1024\<close> up is infinite.
\<close>

lemma ilog_bounds:
  "2 \<le> b \<Longrightarrow> 0 < n \<Longrightarrow> b ^ ilog b n \<le> n \<and> n < b ^ Suc (ilog b n)"
proof (induction b n rule: ilog.induct)
  case (1 b n)
  show ?case
  proof (cases "n < b")
    case True
    with 1 show ?thesis by (simp add: ilog.simps[of b n])
  next
    case False
    with 1 have pos: "0 < n div b" by (simp add: div_greater_zero_iff)
    from False 1 have IH: "b ^ ilog b (n div b) \<le> n div b \<and> n div b < b ^ Suc (ilog b (n div b))"
      using pos by simp
    have eq: "ilog b n = Suc (ilog b (n div b))" using False 1 by (simp add: ilog.simps[of b n])
    have "b * b ^ ilog b (n div b) \<le> b * (n div b)" using IH by simp
    also have "\<dots> \<le> n" by simp
    finally have lo: "b ^ ilog b n \<le> n" by (simp add: eq)
    have "n < b * (n div b + 1)"
      using 1(2) by (simp add: dividend_less_times_div mult.commute)
    also have "\<dots> \<le> b * b ^ Suc (ilog b (n div b))"
      using IH by (intro mult_le_mono2) simp
    finally have "n < b ^ Suc (ilog b n)" by (simp add: eq)
    with lo show ?thesis by simp
  qed
qed

lemma pow2_powi: "pow2 e = 2 powi e"
  by (simp add: pow2_def power_int_def inverse_eq_divide power_one_over)

lemma pow2_pos: "0 < pow2 e"
  by (simp add: pow2_def)

lemma pow2_mono: "i \<le> j \<Longrightarrow> pow2 i \<le> pow2 j"
  unfolding pow2_powi by (intro power_int_increasing) simp_all

lemma pow2_less_imp: "pow2 i < pow2 j \<Longrightarrow> i < j"
  using pow2_mono[of j i] by (cases "i < j") simp_all

lemma pow2_diff: "pow2 (i - j) = pow2 i / pow2 j"
  unfolding pow2_powi by (rule power_int_diff) simp

lemma flog2_bounds:
  assumes "0 < q"
  shows "pow2 (flog 2 q) \<le> q \<and> q < pow2 (flog 2 q + 1)"
proof -
  obtain n d where nd: "quotient_of q = (n, d)" by (cases "quotient_of q")
  then have dpos: "0 < d" and q: "q = of_int n / of_int d"
    using quotient_of_denom_pos quotient_of_div by auto
  with assms have npos: "0 < n" by (simp add: zero_less_divide_iff)
  define a where "a = ilog 2 (nat n)"
  define c where "c = ilog 2 (nat d)"
  have an: "2 ^ a \<le> nat n \<and> nat n < 2 ^ Suc a"
    unfolding a_def using npos by (intro ilog_bounds) simp_all
  have cd: "2 ^ c \<le> nat d \<and> nat d < 2 ^ Suc c"
    unfolding c_def using dpos by (intro ilog_bounds) simp_all
  have "(of_nat (2 ^ a) :: rat) \<le> of_nat (nat n)" "(of_nat (nat n) :: rat) < of_nat (2 ^ Suc a)"
    using an by (simp_all only: of_nat_le_iff of_nat_less_iff)
  then have n1: "(2::rat) ^ a \<le> of_int n" "of_int n < (2::rat) ^ Suc a"
    using npos by simp_all
  have "(of_nat (2 ^ c) :: rat) \<le> of_nat (nat d)" "(of_nat (nat d) :: rat) < of_nat (2 ^ Suc c)"
    using cd by (simp_all only: of_nat_le_iff of_nat_less_iff)
  then have d1: "(2::rat) ^ c \<le> of_int d" "of_int d < (2::rat) ^ Suc c"
    using dpos by simp_all
  define e where "e = int a - int c"
  have dq: "(0::rat) < of_int d" using dpos by simp
  have "q < 2 ^ Suc a / of_int d"
    unfolding q using n1(2) dq by (simp add: divide_strict_right_mono)
  also have "\<dots> \<le> 2 ^ Suc a / 2 ^ c"
    using d1(1) dq by (intro divide_left_mono mult_pos_pos) simp_all
  also have "\<dots> = (2::rat) powi int (Suc a) / 2 powi int c"
    by (simp only: power_int_of_nat)
  also have "\<dots> = 2 powi (int (Suc a) - int c)"
    by (rule power_int_diff[symmetric]) simp
  also have "int (Suc a) - int c = e + 1"
    by (simp add: e_def)
  finally have up: "q < 2 powi (e + 1)" .
  have "e - 1 = int a - int (Suc c)"
    by (simp add: e_def)
  moreover have "(2::rat) powi (int a - int (Suc c)) = 2 powi int a / 2 powi int (Suc c)"
    by (rule power_int_diff) simp
  ultimately have "2 powi (e - 1) = (2::rat) powi int a / 2 powi int (Suc c)"
    by (simp only:)
  also have "\<dots> = (2::rat) ^ a / 2 ^ Suc c"
    by (simp only: power_int_of_nat)
  also have "\<dots> \<le> 2 ^ a / of_int d"
    using d1(2) dq by (intro divide_left_mono mult_pos_pos) simp_all
  also have "\<dots> \<le> q"
    unfolding q using n1(1) dq by (simp add: divide_right_mono)
  finally have lo: "2 powi (e - 1) \<le> q" .
  have fl: "flog 2 q = (if 2 powi e \<le> q then e else e - 1)"
    using nd by (simp add: flog_def a_def c_def e_def Let_def power_int_def inverse_eq_divide power_one_over)
  show ?thesis
    using up lo by (auto simp: fl pow2_powi)
qed

lemma flog2_eq:
  assumes "0 < q" "pow2 k \<le> q" "q < pow2 (k + 1)"
  shows "flog 2 q = k"
proof -
  from flog2_bounds[OF assms(1)] have b: "pow2 (flog 2 q) \<le> q" "q < pow2 (flog 2 q + 1)"
    by simp_all
  have "pow2 k < pow2 (flog 2 q + 1)" using assms(2) b(2) by simp
  then have "k < flog 2 q + 1" by (rule pow2_less_imp)
  moreover have "pow2 (flog 2 q) < pow2 (k + 1)" using b(1) assms(3) by simp
  then have "flog 2 q < k + 1" by (rule pow2_less_imp)
  ultimately show ?thesis by simp
qed

lemma round_half_even_near:
  assumes "\<bar>x - of_int m\<bar> < 1 / 2"
  shows "round_half_even x = m"
proof (cases "of_int m \<le> x")
  case True
  with assms have "\<lfloor>x\<rfloor> = m" by (intro floor_unique) (simp_all add: abs_less_iff)
  with assms True show ?thesis by (simp add: round_half_even_def Let_def abs_less_iff)
next
  case False
  with assms have f: "\<lfloor>x\<rfloor> = m - 1" by (intro floor_unique) (simp_all add: abs_less_iff)
  from assms False have "1 / 2 < x - of_int (m - 1)" by (simp add: abs_less_iff)
  with f show ?thesis by (simp add: round_half_even_def Let_def)
qed

lemma round_double_normal:
  assumes "pow2 k \<le> q" "q < pow2 (k + 1)" "- 1022 \<le> k"
    and "\<bar>q / pow2 (k - 52) - of_int m\<bar> < 1 / 2"
    and "of_int m * pow2 (k - 52) < pow2 1024"
  shows "round_double q = Finite (of_int m * pow2 (k - 52))"
proof -
  have q: "0 < q" using assms(1) pow2_pos[of k] by simp
  then have "flog 2 q = k" using assms(1,2) by (rule flog2_eq)
  moreover have "max (k - 52) (- 1074) = k - 52" using assms(3) by simp
  moreover have "round_half_even (q / pow2 (k - 52)) = m"
    using assms(4) by (rule round_half_even_near)
  ultimately show ?thesis
    using q assms(5) by (simp add: round_double_def Let_def)
qed

lemma round_half_even_ge:
  assumes "of_int n \<le> x"
  shows "n \<le> round_half_even x"
proof -
  have "n \<le> \<lfloor>x\<rfloor>" using assms by (simp add: le_floor_iff)
  then show ?thesis by (simp add: round_half_even_def Let_def)
qed

lemma round_double_overflow:
  assumes "pow2 1024 \<le> q"
  shows "round_double q = PosInf"
proof -
  have q: "0 < q" using assms pow2_pos[of 1024] by simp
  define k where "k = flog 2 q"
  have b: "pow2 k \<le> q" "q < pow2 (k + 1)"
    using flog2_bounds[OF q] by (simp_all add: k_def)
  have "pow2 1024 < pow2 (k + 1)" using assms b(2) by simp
  then have k: "1024 \<le> k" using pow2_less_imp[of 1024 "k + 1"] by simp
  define m where "m = round_half_even (q / pow2 (k - 52))"
  have "of_int (2 ^ 52) = pow2 k / pow2 (k - 52)"
    using pow2_diff[of k "k - 52"] pow2_pos[of "k - 52"] by (simp add: pow2_def)
  also have "\<dots> \<le> q / pow2 (k - 52)"
    using b(1) pow2_pos[of "k - 52"] by (simp add: divide_right_mono)
  finally have "2 ^ 52 \<le> m" unfolding m_def by (rule round_half_even_ge)
  then have "(2::rat) ^ 52 \<le> of_int m" by (metis of_int_le_iff of_int_numeral of_int_power)
  then have "pow2 52 * pow2 (k - 52) \<le> of_int m * pow2 (k - 52)"
    using pow2_pos[of "k - 52"] by (simp add: pow2_def)
  moreover have "pow2 52 * pow2 (k - 52) = pow2 k"
    using pow2_diff[of k 52] pow2_pos[of 52] by (simp add: field_simps)
  moreover have "pow2 1024 \<le> pow2 k" using k by (rule pow2_mono)
  ultimately have "pow2 1024 \<le> of_int m * pow2 (k - 52)" by simp
  moreover have "max (k - 52) (- 1074) = k - 52" using k by simp
  ultimately show ?thesis
    using q by (simp add: round_double_def Let_def k_def[symmetric] m_def[symmetric])
qed

lemma round_double_nonneg:
  assumes "0 \<le> q"
  shows "round_double q = PosInf \<or> (\<exists>x\<ge>0. round_double q = Finite x)"
proof (cases "q = 0")
  case True
  then show ?thesis by (simp add: round_double_def)
next
  case False
  with assms have q: "0 < q" by simp
  define e where "e = max (flog 2 q - 52) (- 1074)"
  have "of_int 0 \<le> q / pow2 e" using q pow2_pos[of e] by simp
  then have "0 \<le> round_half_even (q / pow2 e)" by (rule round_half_even_ge)
  then have "0 \<le> of_int (round_half_even (q / pow2 e)) * pow2 e"
    using pow2_pos[of e] by simp
  then show ?thesis
    using q by (auto simp: round_double_def Let_def e_def[symmetric])
qed

section \<open>White space around a JSON text\<close>

text \<open>
  \<open>trim\<close> removes more than the white space JSON knows, but no text that parses
  starts or ends with a space JSON does not know: trimming a text that parses leaves
  its tokens as they are.
\<close>

lemma json_space_js_space: "json_space c \<Longrightarrow> js_space c"
  by (auto simp: json_space_def js_space_def)

lemma js_space_no_token:
  assumes "js_space c"
  shows "c \<noteq> 0x7B" "c \<noteq> 0x7D" "c \<noteq> 0x5B" "c \<noteq> 0x5D" "c \<noteq> 0x3A" "c \<noteq> 0x2C"
    "c \<noteq> 0x22" "c \<noteq> 0x2D" "c \<noteq> 0x2B" "c \<noteq> 0x2E" "c \<noteq> 0x65" "c \<noteq> 0x45" "c \<noteq> 0x5C"
    "\<not> is_digit c" "hex_val c = None"
  using assms
  by (auto simp: js_space_def is_digit_def hex_val_def word_le_nat_alt)

lemma js_space_not_in_literal:
  assumes "js_space c"
  shows "c \<notin> set (lit ''true'')" "c \<notin> set (lit ''false'')" "c \<notin> set (lit ''null'')"
  using assms by (auto simp: js_space_def lit_def word_le_nat_alt)

lemma starts_with_snoc:
  assumes "c \<notin> set p"
  shows "starts_with (u @ [c]) p = starts_with u p"
proof (cases "length p \<le> length u")
  case True
  then show ?thesis by (simp add: starts_with_def)
next
  case False
  then have "take (length p) (u @ [c]) = u @ [c]" by simp
  moreover have "take (length p) u = u" using False by simp
  moreover have "u @ [c] \<noteq> p" using assms by auto
  moreover have "u \<noteq> p" using False by auto
  ultimately show ?thesis by (simp only: starts_with_def)
qed

lemma starts_with_nonempty: "starts_with u (x # p) \<Longrightarrow> u \<noteq> []"
  by (auto simp: starts_with_def)


lemma takeWhile_snoc: "\<not> P c \<Longrightarrow> takeWhile P (u @ [c]) = takeWhile P u"
  by (induction u) simp_all

lemma dropWhile_snoc: "\<not> P c \<Longrightarrow> dropWhile P (u @ [c]) = dropWhile P u @ [c]"
  by (induction u) simp_all

lemma drop1_snoc: "u \<noteq> [] \<Longrightarrow> drop (Suc 0 - length u) [c] = [c]"
  by (cases u) simp_all

lemma scan_int_snoc: "\<not> is_digit c \<Longrightarrow> scan_int (u @ [c]) = keep c (scan_int u)"
  by (simp add: scan_int_def keep_def takeWhile_snoc dropWhile_snoc Let_def)

lemma scan_frac_snoc:
  assumes "js_space c"
  shows "scan_frac (u @ [c]) = keep c (scan_frac u)"
proof -
  have s: "starts_with (u @ [c]) [0x2E] = starts_with u [0x2E]"
    using js_space_no_token(10)[OF assms] by (intro starts_with_snoc) simp
  show ?thesis
  proof (cases "starts_with u [0x2E]")
    case True
    then have "u \<noteq> []" by (rule starts_with_nonempty)
    then show ?thesis
      using True s js_space_no_token(14)[OF assms]
      by (simp add: scan_frac_def keep_def drop1_snoc takeWhile_snoc dropWhile_snoc)
  next
    case False
    then show ?thesis using s by (simp add: scan_frac_def keep_def)
  qed
qed

lemma scan_sign_snoc:
  assumes "js_space c"
  shows "scan_sign (u @ [c]) = (fst (scan_sign u), snd (scan_sign u) @ [c])"
proof -
  have m: "starts_with (u @ [c]) [0x2D] = starts_with u [0x2D]"
    using js_space_no_token(8)[OF assms] by (intro starts_with_snoc) simp
  have p: "starts_with (u @ [c]) [0x2B] = starts_with u [0x2B]"
    using js_space_no_token(9)[OF assms] by (intro starts_with_snoc) simp
  show ?thesis
    using m p starts_with_nonempty[of u "0x2D" "[]"] starts_with_nonempty[of u "0x2B" "[]"]
    by (auto simp: scan_sign_def drop1_snoc)
qed

lemma scan_exp_snoc:
  assumes "js_space c"
  shows "scan_exp (u @ [c]) = keep c (scan_exp u)"
proof -
  have e1: "starts_with (u @ [c]) [0x65] = starts_with u [0x65]"
    using js_space_no_token(11)[OF assms] by (intro starts_with_snoc) simp
  have e2: "starts_with (u @ [c]) [0x45] = starts_with u [0x45]"
    using js_space_no_token(12)[OF assms] by (intro starts_with_snoc) simp
  show ?thesis
  proof (cases "starts_with u [0x65] \<or> starts_with u [0x45]")
    case False
    then show ?thesis using e1 e2 by (simp add: scan_exp_def keep_def)
  next
    case True
    then have ne: "u \<noteq> []" using starts_with_nonempty by blast
    obtain b s' where sg: "scan_sign (drop 1 u) = (b, s')" by (cases "scan_sign (drop 1 u)")
    then have sg': "scan_sign (drop 1 (u @ [c])) = (b, s' @ [c])"
      using scan_sign_snoc[OF assms, of "drop 1 u"] ne by (simp add: drop1_snoc)
    show ?thesis
      using True e1 e2 sg sg' js_space_no_token(14)[OF assms]
      by (simp add: scan_exp_def keep_def Let_def takeWhile_snoc dropWhile_snoc)
  qed
qed

lemma scan_number_snoc:
  assumes "js_space c"
  shows "scan_number (u @ [c]) = keep c (scan_number u)"
proof -
  have m: "starts_with (u @ [c]) [0x2D] = starts_with u [0x2D]"
    using js_space_no_token(8)[OF assms] by (intro starts_with_snoc) simp
  let ?u1 = "if starts_with u [0x2D] then drop 1 u else u"
  have u1: "(if starts_with (u @ [c]) [0x2D] then drop 1 (u @ [c]) else u @ [c]) = ?u1 @ [c]"
    using m starts_with_nonempty[of u "0x2D" "[]"] by (auto simp: drop1_snoc)
  have i: "scan_int (?u1 @ [c]) = keep c (scan_int ?u1)"
    using js_space_no_token(14)[OF assms] by (rule scan_int_snoc)
  show ?thesis
  proof (cases "scan_int ?u1")
    case None
    then show ?thesis using i u1 m by (simp add: scan_number_def keep_def Let_def)
  next
    case (Some a)
    obtain ip s2 where a: "a = (ip, s2)" by (cases a)
    show ?thesis
    proof (cases "scan_frac s2")
      case None
      then show ?thesis
        using i u1 m Some a scan_frac_snoc[OF assms, of s2]
        by (simp add: scan_number_def keep_def Let_def)
    next
      case (Some b)
      obtain fp s3 where b: "b = (fp, s3)" by (cases b)
      show ?thesis
        using i u1 m \<open>scan_int ?u1 = Some a\<close> a Some b scan_frac_snoc[OF assms, of s2]
          scan_exp_snoc[OF assms, of s3]
        by (cases "scan_exp s3") (auto simp: scan_number_def keep_def Let_def)
    qed
  qed
qed


lemma keep_cons_fst: "keep c (cons_fst u r) = cons_fst u (keep c r)"
  by (cases r) (auto simp: keep_def cons_fst_def)

lemma js_space_unescape: "js_space c \<Longrightarrow> unescape c = None"
  by (auto simp: js_space_def unescape_def word_le_nat_alt)

lemma hex4_space: "js_space c \<Longrightarrow> hex4 h1 h2 h3 c = None"
  using js_space_no_token(15)[of c] by (simp add: hex4_def split: option.splits)

lemma scan_string_snoc:
  assumes sp: "js_space c"
  shows "scan_string (cs @ [c]) = keep c (scan_string cs)"
proof (induction cs rule: scan_string.induct)
  case 1
  show ?case
    using js_space_no_token(7,13)[OF sp] by (simp add: keep_def cons_fst_def)
next
  case (2 a cs)
  show ?case
  proof (cases "a = 0x22")
    case True
    then show ?thesis by (simp add: keep_def)
  next
    case nq: False
    show ?thesis
    proof (cases "a = 0x5C")
      case bs: True
      show ?thesis
      proof (cases cs)
        case Nil
        with bs nq show ?thesis
          using js_space_unescape[OF sp] js_space_no_token(11)[OF sp]
          by (auto simp: keep_def js_space_def word_le_nat_alt)
      next
        case (Cons e r)
        show ?thesis
        proof (cases "e = 0x75")
          case u: True
          show ?thesis
          proof (cases "\<exists>h1 h2 h3 h4 r'. r = h1 # h2 # h3 # h4 # r'")
            case True
            then obtain h1 h2 h3 h4 r' where r: "r = h1 # h2 # h3 # h4 # r'" by blast
            show ?thesis
            proof (cases "hex4 h1 h2 h3 h4")
              case None
              with bs nq Cons u r show ?thesis by (simp add: keep_def)
            next
              case (Some v)
              with "2.IH"(1)[OF nq bs Cons u r] bs nq Cons u r show ?thesis
                by (simp add: keep_cons_fst)
            qed
          next
            case False
            then have short: "length r < 4"
              by (cases r; cases "tl r"; cases "tl (tl r)"; cases "tl (tl (tl r))") auto
            then have "scan_string (a # cs) = None"
              using bs nq Cons u
              by (cases r; cases "tl r"; cases "tl (tl r)"; cases "tl (tl (tl r))") auto
            moreover have "scan_string (a # cs @ [c]) = None"
              using bs nq Cons u short hex4_space[OF sp]
              by (cases r; cases "tl r"; cases "tl (tl r)"; cases "tl (tl (tl r))") auto
            ultimately show ?thesis by (simp add: keep_def)
          qed
        next
          case nu: False
          show ?thesis
          proof (cases "unescape e")
            case None
            with bs nq Cons nu show ?thesis by (simp add: keep_def)
          next
            case (Some v)
            with "2.IH"(2)[OF nq bs Cons nu] bs nq Cons nu show ?thesis
              by (simp add: keep_cons_fst)
          qed
        qed
      qed
    next
      case nb: False
      show ?thesis
      proof (cases "a < 0x20")
        case True
        with nq nb show ?thesis by (simp add: keep_def)
      next
        case False
        with "2.IH"(3)[OF nq nb False] nq nb show ?thesis by (simp add: keep_cons_fst)
      qed
    qed
  qed
qed


lemma starts_with_drop:
  "starts_with u p \<Longrightarrow> drop (length p) (u @ v) = drop (length p) u @ v"
proof -
  assume "starts_with u p"
  then have "length (take (length p) u) = length p" by (simp only: starts_with_def)
  then have "length p \<le> length u" by simp
  then show ?thesis by simp
qed

lemma lex_snoc:
  assumes sp: "js_space c"
  shows "lex (u @ [c]) = (if json_space c then lex u else None)"
proof (induction "length u" arbitrary: u rule: less_induct)
  case less
  note nt = js_space_no_token[OF sp]
  have lit_t: "starts_with (v @ [c]) (lit ''true'') = starts_with v (lit ''true'')" for v
    using js_space_not_in_literal(1)[OF sp] by (rule starts_with_snoc)
  have lit_f: "starts_with (v @ [c]) (lit ''false'') = starts_with v (lit ''false'')" for v
    using js_space_not_in_literal(2)[OF sp] by (rule starts_with_snoc)
  have lit_n: "starts_with (v @ [c]) (lit ''null'') = starts_with v (lit ''null'')" for v
    using js_space_not_in_literal(3)[OF sp] by (rule starts_with_snoc)
  show ?case
  proof (cases u)
    case Nil
    have "lex [c] = (if json_space c then Some [] else None)"
      using nt lit_t[of "[]"] lit_f[of "[]"] lit_n[of "[]"]
      by (simp add: starts_with_def lit_def)
    with Nil show ?thesis by simp
  next
    case (Cons a cs)
    have IH: "lex (v @ [c]) = (if json_space c then lex v else None)" if "length v \<le> length cs" for v
      using less[of v] that Cons by simp
    have IHcs: "lex (cs @ [c]) = (if json_space c then lex cs else None)"
      by (rule IH) simp
    show ?thesis
    proof (cases "json_space a \<or> a = 0x7B \<or> a = 0x7D \<or> a = 0x5B \<or> a = 0x5D \<or> a = 0x3A \<or> a = 0x2C")
      case True
      show ?thesis
      proof (cases "json_space a")
        case True
        with Cons IHcs show ?thesis by simp
      next
        case False
        with True have "a = 0x7B \<or> a = 0x7D \<or> a = 0x5B \<or> a = 0x5D \<or> a = 0x3A \<or> a = 0x2C"
          by simp
        then show ?thesis
          using Cons IHcs by (elim disjE) (simp_all add: json_space_def)
      qed
    next
      case simple: False
      show ?thesis
      proof (cases "a = 0x22")
        case True
        show ?thesis
        proof (cases "scan_string cs")
          case None
          with True simple Cons scan_string_snoc[OF sp, of cs] show ?thesis
            by (simp add: keep_def)
        next
          case (Some x)
          obtain s rest where x: "x = (s, rest)" by (cases x)
          with Some have "length rest < length cs" using scan_string_shorter by blast
          then have "lex (rest @ [c]) = (if json_space c then lex rest else None)"
            by (intro IH) simp
          with True simple Cons Some x scan_string_snoc[OF sp, of cs] show ?thesis
            by (simp add: keep_def)
        qed
      next
        case nq: False
        show ?thesis
        proof (cases "a = 0x2D \<or> is_digit a")
          case True
          show ?thesis
          proof (cases "scan_number (a # cs)")
            case None
            with True nq simple Cons scan_number_snoc[OF sp, of "a # cs"] show ?thesis
              by (simp add: keep_def)
          next
            case (Some x)
            obtain n rest where x: "x = (n, rest)" by (cases x)
            with Some have "length rest < length (a # cs)" using scan_number_shorter by blast
            then have "lex (rest @ [c]) = (if json_space c then lex rest else None)"
              by (intro IH) simp
            with True nq simple Cons Some x scan_number_snoc[OF sp, of "a # cs"] show ?thesis
              by (simp add: keep_def)
          qed
        next
          case nn: False
          have d4: "lex (drop 4 (a # cs) @ [c]) = (if json_space c then lex (drop 4 (a # cs)) else None)"
            by (intro IH) simp
          have d5: "lex (drop 5 (a # cs) @ [c]) = (if json_space c then lex (drop 5 (a # cs)) else None)"
            by (intro IH) simp
          have len: "length (lit ''true'') = 4" "length (lit ''null'') = 4" "length (lit ''false'') = 5"
            by (simp_all add: lit_def)
          have t4: "drop 4 (a # cs @ [c]) = drop 4 (a # cs) @ [c]" if "starts_with (a # cs) (lit ''true'')"
            using starts_with_drop[OF that, of "[c]"] by (simp only: len append_Cons)
          have n4: "drop 4 (a # cs @ [c]) = drop 4 (a # cs) @ [c]" if "starts_with (a # cs) (lit ''null'')"
            using starts_with_drop[OF that, of "[c]"] by (simp only: len append_Cons)
          have f5: "drop 5 (a # cs @ [c]) = drop 5 (a # cs) @ [c]" if "starts_with (a # cs) (lit ''false'')"
            using starts_with_drop[OF that, of "[c]"] by (simp only: len append_Cons)
          have st: "starts_with (a # cs @ [c]) (lit ''true'') = starts_with (a # cs) (lit ''true'')"
            using lit_t[of "a # cs"] by (simp only: append_Cons)
          have sf: "starts_with (a # cs @ [c]) (lit ''false'') = starts_with (a # cs) (lit ''false'')"
            using lit_f[of "a # cs"] by (simp only: append_Cons)
          have sn: "starts_with (a # cs @ [c]) (lit ''null'') = starts_with (a # cs) (lit ''null'')"
            using lit_n[of "a # cs"] by (simp only: append_Cons)
          have base: "lex (a # w) =
              (if starts_with (a # w) (lit ''true'') then map_option (Cons TTrue) (lex (drop 4 (a # w)))
               else if starts_with (a # w) (lit ''false'') then map_option (Cons TFalse) (lex (drop 5 (a # w)))
               else if starts_with (a # w) (lit ''null'') then map_option (Cons TNull) (lex (drop 4 (a # w)))
               else None)" for w
            using simple nq nn by (subst lex.simps) (simp del: drop_Cons_numeral)
          have "lex (a # cs @ [c]) = (if json_space c then lex (a # cs) else None)"
          proof (cases "starts_with (a # cs) (lit ''true'')")
            case True
            then show ?thesis
              by (simp only: base[of "cs @ [c]"] base[of cs] st if_True t4[OF True] d4)
                 (simp del: drop_Cons_numeral)
          next
            case nt: False
            show ?thesis
            proof (cases "starts_with (a # cs) (lit ''false'')")
              case True
              then show ?thesis
                by (simp only: base[of "cs @ [c]"] base[of cs] st sf nt if_True if_False f5[OF True] d5)
                   (simp del: drop_Cons_numeral)
            next
              case nf: False
              show ?thesis
              proof (cases "starts_with (a # cs) (lit ''null'')")
                case True
                then show ?thesis
                  by (simp only: base[of "cs @ [c]"] base[of cs] st sf sn nt nf if_True if_False
                        n4[OF True] d4)
                     (simp del: drop_Cons_numeral)
              next
                case False
                then show ?thesis
                  by (simp only: base[of "cs @ [c]"] base[of cs] st sf sn nt nf if_False) simp
              qed
            qed
          qed
          with Cons show ?thesis by simp
        qed
      qed
    qed
  qed
qed


lemma lex_other_space:
  assumes "js_space c" "\<not> json_space c"
  shows "lex (c # t) = None"
proof -
  note nt = js_space_no_token[OF assms(1)]
  have "\<not> starts_with (c # t) (lit ''true'')" "\<not> starts_with (c # t) (lit ''false'')"
    "\<not> starts_with (c # t) (lit ''null'')"
    using js_space_not_in_literal[OF assms(1)] by (auto simp: starts_with_def lit_def)
  with nt assms(2) show ?thesis by simp
qed

lemma lex_leading: "lex t = Some ts \<Longrightarrow> lex (dropWhile js_space t) = Some ts"
proof (induction t)
  case Nil
  then show ?case by simp
next
  case (Cons c t)
  show ?case
  proof (cases "js_space c")
    case False
    with Cons.prems show ?thesis by simp
  next
    case True
    have js: "json_space c"
    proof (rule ccontr)
      assume "\<not> json_space c"
      with True have "lex (c # t) = None" by (rule lex_other_space)
      with Cons.prems show False by (simp only: option.distinct)
    qed
    with Cons.prems have "lex t = Some ts" by simp
    with Cons.IH True show ?thesis by simp
  qed
qed

lemma lex_trailing: "lex u = Some ts \<Longrightarrow> lex (rev (dropWhile js_space (rev u))) = Some ts"
proof (induction u rule: rev_induct)
  case Nil
  then show ?case by simp
next
  case (snoc c v)
  show ?case
  proof (cases "js_space c")
    case False
    with snoc.prems show ?thesis by simp
  next
    case True
    with snoc.prems lex_snoc[OF True, of v] have "lex v = Some ts"
      by (simp split: if_splits)
    with snoc.IH True show ?thesis by simp
  qed
qed

lemma lex_trim: "lex t = Some ts \<Longrightarrow> lex (trim t) = Some ts"
  unfolding trim_def by (intro lex_trailing lex_leading)

lemma json_parse_trim: "json_parse t = Some v \<Longrightarrow> json_parse (trim t) = Some v"
  by (auto simp: json_parse_def lex_trim split: option.splits)

section \<open>A text that parses to an object starts with a brace\<close>

lemma run_error: "fst (run (MError, st) ts) = MError"
  by (induction ts arbitrary: st) simp_all

lemma run_done:
  assumes "run (MDone v, st) ts = (MDone v', st')"
  shows "ts = [] \<and> v' = v"
proof (cases ts)
  case Nil
  with assms show ?thesis by simp
next
  case (Cons t ts')
  with assms run_error[of "[]" ts'] show ?thesis by simp
qed

lemma arr_bottom_Cons: "st \<noteq> [] \<Longrightarrow> arr_bottom (f # st) = arr_bottom st"
  by (simp add: arr_bottom_def)

lemma deliver_arr:
  assumes "arr_bottom st" "deliver v st = (m', st')"
  shows "m' = MError \<or> (m' = MAfter \<and> arr_bottom st')"
proof (cases st)
  case Nil
  with assms show ?thesis by (simp add: arr_bottom_def)
next
  case (Cons f st2)
  with assms show ?thesis
    by (cases f; cases "st2 = []") (auto simp: arr_bottom_def)
qed

lemma open_value_arr:
  assumes "arr_bottom st" "open_value t st = (m', st')"
  shows "m' = MError \<or> ((\<forall>v. m' \<noteq> MDone v) \<and> arr_bottom st')"
proof (cases t)
  case TLBrace
  with assms show ?thesis by (auto simp: arr_bottom_def)
next
  case TLBrack
  with assms show ?thesis by (auto simp: arr_bottom_def)
qed (use assms deliver_arr in \<open>auto\<close>)

lemma close_array_arr:
  assumes "arr_bottom st" "close_array st = (m', st')"
  shows "m' = MError \<or> (\<exists>xs. m' = MDone (JArr xs)) \<or> ((\<forall>v. m' \<noteq> MDone v) \<and> arr_bottom st')"
proof (cases st)
  case Nil
  with assms show ?thesis by simp
next
  case (Cons f st2)
  show ?thesis
  proof (cases "st2 = []")
    case True
    with Cons assms show ?thesis by (cases f) auto
  next
    case False
    with Cons assms(1) have "arr_bottom st2" by (simp add: arr_bottom_Cons)
    with Cons assms(2) deliver_arr show ?thesis by (cases f) auto
  qed
qed

lemma close_object_arr:
  assumes "arr_bottom st" "close_object st = (m', st')"
  shows "m' = MError \<or> ((\<forall>v. m' \<noteq> MDone v) \<and> arr_bottom st')"
proof (cases st)
  case Nil
  with assms show ?thesis by simp
next
  case (Cons f st2)
  show ?thesis
  proof (cases "st2 = []")
    case True
    with Cons assms show ?thesis by (cases f) (auto simp: arr_bottom_def)
  next
    case False
    with Cons assms(1) have "arr_bottom st2" by (simp add: arr_bottom_Cons)
    with Cons assms(2) deliver_arr show ?thesis by (cases f) auto
  qed
qed

lemma read_key_arr:
  assumes "arr_bottom st" "read_key st t = (m', st')"
  shows "m' = MError \<or> ((\<forall>v. m' \<noteq> MDone v) \<and> arr_bottom st')"
proof (cases st)
  case Nil
  with assms show ?thesis by simp
next
  case (Cons f st2)
  with assms show ?thesis
    by (cases f; cases t; cases "st2 = []") (auto simp: arr_bottom_def)
qed

lemma after_value_arr:
  assumes "arr_bottom st" "after_value st t = (m', st')"
  shows "m' = MError \<or> (\<exists>xs. m' = MDone (JArr xs)) \<or> ((\<forall>v. m' \<noteq> MDone v) \<and> arr_bottom st')"
proof (cases "t = TRBrack")
  case True
  with assms close_array_arr[of st m' st'] show ?thesis by (cases st; cases "hd st") auto
next
  case nb: False
  show ?thesis
  proof (cases "t = TRBrace")
    case True
    with assms close_object_arr[of st m' st'] show ?thesis by (cases st; cases "hd st") auto
  next
    case False
    with nb assms show ?thesis
      by (cases st; cases "hd st"; cases t) (auto simp: arr_bottom_def)
  qed
qed

lemma step_arr:
  assumes "arr_bottom st" "step m st t = (m', st')"
  shows "m' = MError \<or> (\<exists>xs. m' = MDone (JArr xs)) \<or> ((\<forall>v. m' \<noteq> MDone v) \<and> arr_bottom st')"
  using assms open_value_arr[of st t m' st'] close_array_arr[of st m' st']
    close_object_arr[of st m' st'] read_key_arr[of st t m' st'] after_value_arr[of st t m' st']
  by (cases m) (auto split: if_splits)

lemma run_arr:
  assumes "arr_bottom st" "\<forall>v. m \<noteq> MDone v" "run (m, st) ts = (MDone v, st')"
  shows "\<exists>xs. v = JArr xs"
  using assms
proof (induction ts arbitrary: m st)
  case Nil
  then show ?case by simp
next
  case (Cons t ts)
  obtain m1 st1 where s: "step m st t = (m1, st1)" by (cases "step m st t")
  with Cons.prems have r: "run (m1, st1) ts = (MDone v, st')" by simp
  from step_arr[OF Cons.prems(1) s] consider
    "m1 = MError" | xs where "m1 = MDone (JArr xs)" | "\<forall>v. m1 \<noteq> MDone v" "arr_bottom st1"
    by blast
  then show ?case
  proof cases
    case 1
    with r run_error[of st1 ts] show ?thesis by simp
  next
    case 2
    with r run_done[of "JArr xs" st1 ts v st'] show ?thesis by simp
  next
    case 3
    show ?thesis by (rule Cons.IH[OF 3(2) 3(1) r])
  qed
qed

lemma parse_tokens_object:
  assumes "parse_tokens ts = Some (JObj fs)"
  shows "\<exists>ts'. ts = TLBrace # ts'"
proof (cases ts)
  case Nil
  with assms show ?thesis by (simp add: parse_tokens_def)
next
  case (Cons t ts')
  from assms obtain st' where r: "run (MValue, []) ts = (MDone (JObj fs), st')"
    by (auto simp: parse_tokens_def split: prod.splits mode.splits)
  show ?thesis
  proof (cases t)
    case TLBrace
    with Cons show ?thesis by simp
  next
    case TLBrack
    with Cons r have "run (MElemOrEnd, [FArr []]) ts' = (MDone (JObj fs), st')" by simp
    with run_arr[of "[FArr []]" MElemOrEnd ts' "JObj fs" st'] show ?thesis
      by (simp add: arr_bottom_def)
  next
    case (TString s)
    with Cons r run_done[of "JStr s" "[]" ts' "JObj fs" st'] show ?thesis by simp
  next
    case (TNumber n)
    with Cons r run_done[of "JNum n" "[]" ts' "JObj fs" st'] show ?thesis by simp
  next
    case TTrue
    with Cons r run_done[of "JBool True" "[]" ts' "JObj fs" st'] show ?thesis by simp
  next
    case TFalse
    with Cons r run_done[of "JBool False" "[]" ts' "JObj fs" st'] show ?thesis by simp
  next
    case TNull
    with Cons r run_done[of JNull "[]" ts' "JObj fs" st'] show ?thesis by simp
  qed (use Cons r run_error[of "[]" ts'] in auto)
qed


lemma left_brace_not_space: "\<not> js_space 0x7B"
  by (simp add: js_space_def)

lemma lex_left_brace:
  "lex s = Some (TLBrace # ts) \<Longrightarrow> \<exists>r. dropWhile js_space s = 0x7B # r"
proof (induction s)
  case Nil
  then show ?case by simp
next
  case (Cons c cs)
  show ?case
  proof (cases "json_space c")
    case True
    with Cons json_space_js_space[of c] show ?thesis by simp
  next
    case False
    have "c = 0x7B"
    proof (rule ccontr)
      assume "c \<noteq> 0x7B"
      with False Cons.prems show False
        by (auto split: if_splits option.splits)
    qed
    then show ?thesis by (simp add: left_brace_not_space)
  qed
qed

lemma trim_left_brace:
  assumes "dropWhile js_space s = 0x7B # r"
  shows "s \<noteq> [] \<and> starts_with (trim s) [0x7B]"
proof -
  have "trim s = rev (dropWhile js_space (rev r @ [0x7B]))"
    using assms by (simp add: trim_def)
  also have "\<dots> = 0x7B # rev (dropWhile js_space (rev r))"
    using left_brace_not_space by (simp add: dropWhile_snoc)
  finally show ?thesis using assms by (auto simp: starts_with_def)
qed

lemma json_parse_object:
  assumes "json_parse s = Some (JObj fs)"
  shows "s \<noteq> [] \<and> starts_with (trim s) [0x7B]"
proof -
  from assms obtain ts where l: "lex s = Some ts" and p: "parse_tokens ts = Some (JObj fs)"
    by (auto simp: json_parse_def split: option.splits)
  from parse_tokens_object[OF p] obtain ts' where "ts = TLBrace # ts'" by blast
  with l lex_left_brace obtain r where "dropWhile js_space s = 0x7B # r" by blast
  then show ?thesis by (rule trim_left_brace)
qed

lemma parse_braced_object:
  "json_parse s = Some (JObj fs) \<Longrightarrow> parse_braced s = Inr (JObj fs)"
  using json_parse_object[of s fs] by (simp add: parse_braced_def JSON_parse_def)

section \<open>Stripping the fences\<close>

lemma starts_with_append: "starts_with s (p @ q) \<Longrightarrow> starts_with s p"
proof -
  assume "starts_with s (p @ q)"
  then have "take (length p) (take (length (p @ q)) s) = take (length p) (p @ q)"
    by (simp only: starts_with_def)
  then show ?thesis by (simp add: starts_with_def min_def)
qed

lemma no_fence_tail:
  assumes "\<not> starts_with (c # t) fence"
  shows "\<not> starts_with (c # t @ [0x0A] @ fence) fence"
proof (cases t)
  case Nil
  then show ?thesis by (simp add: starts_with_def fence_def)
next
  case (Cons d t')
  show ?thesis
  proof (cases t')
    case Nil
    with Cons show ?thesis by (simp add: starts_with_def fence_def)
  next
    case (Cons e t'')
    with \<open>t = d # t'\<close> assms show ?thesis by (simp add: starts_with_def fence_def)
  qed
qed

lemma strip_fences_tail:
  "\<not> str_includes t fence \<Longrightarrow> strip_fences (t @ [0x0A] @ fence) = t @ [0x0A]"
proof (induction t)
  case Nil
  then show ?case by (simp add: fence_def starts_with_def eat_def lit_def)
next
  case (Cons c t)
  then have "\<not> starts_with (c # t) fence" and "\<not> str_includes t fence" by simp_all
  with Cons.IH no_fence_tail[of c t] show ?case by simp
qed

lemma strip_fences_quiz_tail:
  "\<not> str_includes t fence \<Longrightarrow> strip_fences_quiz (t @ [0x0A] @ fence) = t @ [0x0A]"
proof (induction t)
  case Nil
  then show ?case by (simp add: fence_def starts_with_def lit_def)
next
  case (Cons c t)
  then have a: "\<not> starts_with (c # t) fence" and b: "\<not> str_includes t fence" by simp_all
  have "\<not> starts_with (c # t @ [0x0A] @ fence) fence" using a by (rule no_fence_tail)
  moreover from this have "\<not> starts_with (c # t @ [0x0A] @ fence) (fence @ lit ''json'')"
    using starts_with_append by blast
  ultimately show ?case using Cons.IH[OF b] by simp
qed

lemma strip_fences_plain: "\<not> str_includes t fence \<Longrightarrow> strip_fences t = t"
  by (induction t) simp_all

lemma strip_fences_quiz_plain: "\<not> str_includes t fence \<Longrightarrow> strip_fences_quiz t = t"
proof (induction t)
  case Nil
  then show ?case by simp
next
  case (Cons c t)
  then have a: "\<not> starts_with (c # t) fence" and b: "\<not> str_includes t fence" by simp_all
  from a have "\<not> starts_with (c # t) (fence @ lit ''json'')"
    using starts_with_append by blast
  with a Cons.IH[OF b] show ?case by simp
qed

lemma strip_fences_fenced:
  "strip_fences (fenced tagged t) = strip_fences (t @ [0x0A] @ fence)"
  by (simp add: fenced_def fence_def starts_with_def eat_def lit_def)

lemma strip_fences_quiz_fenced:
  "strip_fences_quiz (fenced tagged t) = 0x0A # strip_fences_quiz (t @ [0x0A] @ fence)"
  by (simp add: fenced_def fence_def starts_with_def lit_def)

lemma trim_snoc_space:
  assumes "js_space c"
  shows "trim (s @ [c]) = trim s"
proof (cases "\<forall>x\<in>set s. js_space x")
  case True
  with assms have "dropWhile js_space (s @ [c]) = []" and "dropWhile js_space s = []"
    by (auto simp only: dropWhile_eq_Nil_conv set_append set_simps)
  then show ?thesis by (simp only: trim_def)
next
  case False
  then obtain x where "x \<in> set s" "\<not> js_space x" by blast
  then have "dropWhile js_space (s @ [c]) = dropWhile js_space s @ [c]"
    by (rule dropWhile_append1)
  with assms show ?thesis by (simp add: trim_def)
qed

lemma trim_cons_space: "js_space c \<Longrightarrow> trim (c # s) = trim s"
  by (simp add: trim_def)

lemma line_feed_space: "js_space 0x0A"
  by (simp add: js_space_def)

section \<open>Evaluating the model\<close>

text \<open>
  The unfolding rules of the definitions that have no recursion equations of their
  own, used to evaluate the model on a concrete input.
\<close>

lemmas js_value_defs =
  lit_def oget_def sget_def array_index_def is_digit_def digit_val_def digits_val_def
  starts_with_def trim_def trim_start_def js_space_def

lemmas scripted_defs =
  scripted_def start_def the_user_def text_response_def api_error_def
  attemptGenerate_def call_def bnd_def wait_for_def preferredModel_def fallbackModel_def

lemmas json_defs =
  JSON_parse_def json_parse_def parse_tokens_def json_space_def scan_number_def scan_int_def
  scan_frac_def scan_exp_def scan_sign_def cons_fst_def unescape_def hex4_def hex_val_def
  pow10_def

lemmas retry_defs =
  parseRetryMs_def parseRetryMs_try_def parse_braced_def iter_items_def retry_of_detail_def
  includes_of_def delay_match_at_def parse_float_def decimal_value_def

lemma round_double_1: "round_double 1 = Finite 1"
  using round_double_normal[of 0 1 "2 ^ 52"] by (simp add: pow2_def)

lemma round_double_2: "round_double 2 = Finite 2"
  using round_double_normal[of 1 2 "2 ^ 52"] by (simp add: pow2_def)

lemma round_double_429: "round_double 429 = Finite 429"
  using round_double_normal[of 8 429 "429 * 2 ^ 44"] by (simp add: pow2_def)

lemma round_double_2000: "round_double 2000 = Finite 2000"
  using round_double_normal[of 10 2000 "2000 * 2 ^ 42"] by (simp add: pow2_def)

lemma round_double_7_2: "round_double (7 / 2) = Finite (7 / 2)"
  using round_double_normal[of 1 "7 / 2" "7 * 2 ^ 50"] by (simp add: pow2_def)

lemma round_double_3500: "round_double 3500 = Finite 3500"
  using round_double_normal[of 11 3500 "3500 * 2 ^ 41"] by (simp add: pow2_def)

lemmas extract_defs =
  extract_text_def extract_trimmed_def extract_content_def candidate_parts_def
  parts_text_def part_text_def array_join_def

section \<open>The response extractor\<close>

lemma join_with_empty: "join_with [] ss = concat ss"
proof (induction ss)
  case Nil
  then show ?case by simp
next
  case (Cons s ss)
  then show ?case by (cases ss) simp_all
qed

lemma array_map_part_text:
  "list_all fragment_ok ps \<Longrightarrow>
   array_map part_text ps = Inr (map (\<lambda>p. JStr (fragment_str p)) ps)"
proof (induction ps)
  case Nil
  then show ?case by simp
next
  case (Cons p ps)
  from Cons.prems have ok: "fragment_ok p" and rest: "list_all fragment_ok ps"
    by simp_all
  have "part_text p = Inr (JStr (fragment_str p))"
    using ok
    by (cases "getp p (lit ''text'')")
       (auto simp: part_text_def sget_def fragment_ok_def fragment_str_def)
  with Cons.IH[OF rest] show ?case by simp
qed

lemma array_join_strings: "array_join [] (map JStr ss) = Inr (concat ss)"
proof -
  have "those (map (\<lambda>v. if nullish v then Some [] else to_string v) (map JStr ss)) = Some ss"
    by (induction ss) simp_all
  then show ?thesis
    by (simp add: array_join_def join_with_empty)
qed

lemma parts_text_fragments:
  assumes "list_all fragment_ok ps"
  shows "parts_text ps = Inr (concat (map fragment_str ps))"
proof -
  have "array_join [] (map (\<lambda>p. JStr (fragment_str p)) ps) = Inr (concat (map fragment_str ps))"
    using array_join_strings[of "map fragment_str ps"] by (simp add: comp_def)
  with array_map_part_text[OF assms] show ?thesis
    by (simp add: parts_text_def)
qed

text \<open>
  C1 (as amended). The three shapes are tried in order and the first that matches
  decides: a string \<open>text\<close>; else a string \<open>response.text\<close>; else, when
  \<open>response.candidates[0].content.parts\<close> is a list of well-formed fragments,
  the concatenation of the fragments' texts in list order, a missing text counting as
  empty; and when \<open>parts\<close> is not a list, the failure \<open>AI returned no text\<close>.
  \<open>generateCoverLetter\<close> returns the same text trimmed, and reports the failure
  as \<open>Failed to parse AI response\<close>.
\<close>

theorem extract_text_shapes:
  "(oget env (lit ''text'') = JStr t \<longrightarrow>
      extract_text env = Inr t \<and> extract_content env = Inr (trim t))
   \<and> (\<not> is_string (oget env (lit ''text''))
        \<and> oget (oget env (lit ''response'')) (lit ''text'') = JStr t \<longrightarrow>
      extract_text env = Inr t \<and> extract_content env = Inr (trim t))
   \<and> (\<not> is_string (oget env (lit ''text''))
        \<and> \<not> is_string (oget (oget env (lit ''response'')) (lit ''text''))
        \<and> candidate_parts env = JArr ps \<and> list_all fragment_ok ps \<longrightarrow>
      extract_text env = Inr (concat (map fragment_str ps))
      \<and> extract_content env = Inr (trim (concat (map fragment_str ps))))
   \<and> (\<not> is_string (oget env (lit ''text''))
        \<and> \<not> is_string (oget (oget env (lit ''response'')) (lit ''text''))
        \<and> \<not> is_array (candidate_parts env) \<longrightarrow>
      extract_text env = Inl (Error (lit ''AI returned no text''))
      \<and> extract_content env = Inl (Error (lit ''Failed to parse AI response'')))"
proof -
  have direct: "extract_text env = Inr s \<and> extract_content env = Inr (trim s)"
    if "oget env (lit ''text'') = JStr s" for s
    using that by (simp add: extract_text_def extract_content_def extract_trimmed_def)
  have nested: "extract_text env = Inr s \<and> extract_content env = Inr (trim s)"
    if "\<not> is_string (oget env (lit ''text''))"
      and "oget (oget env (lit ''response'')) (lit ''text'') = JStr s" for s
    using that
    by (cases "oget env (lit ''text'')")
       (simp_all add: extract_text_def extract_content_def extract_trimmed_def)
  have frags: "extract_text env = Inr (concat (map fragment_str ps))
      \<and> extract_content env = Inr (trim (concat (map fragment_str ps)))"
    if "\<not> is_string (oget env (lit ''text''))"
      and "\<not> is_string (oget (oget env (lit ''response'')) (lit ''text''))"
      and "candidate_parts env = JArr ps" and "list_all fragment_ok ps"
    using that parts_text_fragments[of ps]
    by (cases "oget env (lit ''text'')"; cases "oget (oget env (lit ''response'')) (lit ''text'')")
       (simp_all add: extract_text_def extract_content_def extract_trimmed_def)
  have none: "extract_text env = Inl (Error (lit ''AI returned no text''))
      \<and> extract_content env = Inl (Error (lit ''Failed to parse AI response''))"
    if "\<not> is_string (oget env (lit ''text''))"
      and "\<not> is_string (oget (oget env (lit ''response'')) (lit ''text''))"
      and "\<not> is_array (candidate_parts env)"
    using that
    by (cases "oget env (lit ''text'')"; cases "oget (oget env (lit ''response'')) (lit ''text'')")
       (simp_all add: extract_text_def extract_content_def extract_trimmed_def)
  from direct nested frags none show ?thesis by blast
qed

theorem extract_text_shapes_witness:
  "extract_text (JObj [(lit ''text'', JStr (lit ''RESULT''))]) = Inr (lit ''RESULT'')
   \<and> extract_text (JObj [(lit ''response'', JObj [(lit ''text'', JStr (lit ''ok''))])])
       = Inr (lit ''ok'')
   \<and> extract_text
        (JObj [(lit ''response'', JObj [(lit ''candidates'', JArr [JObj [(lit ''content'',
           JObj [(lit ''parts'', JArr [JObj [(lit ''text'', JStr (lit ''Hello, ''))],
                                      JObj [(lit ''text'', JStr (lit ''world!''))],
                                      JObj []])])]])])])
       = Inr (lit ''Hello, world!'')
   \<and> extract_text (JObj [(lit ''candidates'', JArr [])])
       = Inl (Error (lit ''AI returned no text''))"
proof -
  let ?e1 = "JObj [(lit ''text'', JStr (lit ''RESULT''))]"
  let ?e2 = "JObj [(lit ''response'', JObj [(lit ''text'', JStr (lit ''ok''))])]"
  let ?ps = "[JObj [(lit ''text'', JStr (lit ''Hello, ''))],
              JObj [(lit ''text'', JStr (lit ''world!''))], JObj []]"
  let ?e3 = "JObj [(lit ''response'', JObj [(lit ''candidates'', JArr [JObj [(lit ''content'',
           JObj [(lit ''parts'', JArr ?ps)])]])])]"
  let ?e4 = "JObj [(lit ''candidates'', JArr [])]"
  have "extract_text ?e1 = Inr (lit ''RESULT'')"
    using extract_text_shapes[of ?e1 "lit ''RESULT''"] by (simp add: js_value_defs)
  moreover have "extract_text ?e2 = Inr (lit ''ok'')"
    using extract_text_shapes[of ?e2 "lit ''ok''"] by (simp add: js_value_defs)
  moreover have "extract_text ?e3 = Inr (lit ''Hello, world!'')"
    using extract_text_shapes[of ?e3 _ ?ps]
    by (simp add: js_value_defs candidate_parts_def fragment_ok_def fragment_str_def)
  moreover have "extract_text ?e4 = Inl (Error (lit ''AI returned no text''))"
    using extract_text_shapes[of ?e4]
    by (simp add: js_value_defs candidate_parts_def)
  ultimately show ?thesis by blast
qed

text \<open>
  The claim as first stated fails on a list with a \<open>null\<close> fragment: the
  callback reads \<open>p.text\<close> of \<open>null\<close>, so the extractor throws a
  \<open>TypeError\<close> where the claim has it return a concatenation. It fails too at
  the cover letter, which returns the direct text trimmed, not as it is.
\<close>

theorem extract_text_null_fragment:
  "extract_text
     (JObj [(lit ''response'', JObj [(lit ''candidates'', JArr [JObj [(lit ''content'',
        JObj [(lit ''parts'', JArr [JNull])])]])])]) = Inl TypeError
   \<and> extract_content (JObj [(lit ''text'', JStr (lit '' hi ''))]) = Inr (lit ''hi'')"
  by (simp add: js_value_defs extract_defs)


section \<open>The call with its fallback\<close>

lemma isQuotaError_status_429:
  "truthy err \<Longrightarrow> oget err (lit ''status'') = JNum (Finite 429) \<Longrightarrow> isQuotaError err = Inr True"
  by (simp add: isQuotaError_def)

lemma non_quota_error_propagates_aux:
  assumes "generateContent svc preferredModel prompt (world s) = (Inl err, w)"
    and "isQuotaError err = Inr False"
  shows "invoke_with_fallback svc prompt s
           = (Inl (Thrown err), s\<lparr>world := w, trace := trace s @ [Invoke preferredModel]\<rparr>)"
  using assms by (simp add: invoke_with_fallback_def attemptGenerate_def)

text \<open>
  C6. When the call to the preferred model fails with an error that is not a quota
  error, that error is thrown on as it is, and the run has made this one call and no
  other: the fallback model is not invoked.
\<close>

theorem non_quota_error_propagates:
  assumes "generateContent svc preferredModel prompt (world s) = (Inl err, w)"
    and "isQuotaError err = Inr False"
  shows "invoke_with_fallback svc prompt s
           = (Inl (Thrown err), s\<lparr>world := w, trace := trace s @ [Invoke preferredModel]\<rparr>)"
  using assms by (simp add: invoke_with_fallback_def attemptGenerate_def)

theorem non_quota_error_propagates_witness:
  "invoke_with_fallback scripted [] (start [Inl (api_error 500 ''Internal error''), Inr (text_response ''late'')])
     = (Inl (Thrown (api_error 500 ''Internal error'')),
        \<lparr>world = [Inr (text_response ''late'')], trace = [Invoke preferredModel]\<rparr>)"
proof -
  let ?err = "api_error 500 ''Internal error''"
  let ?w = "[Inl ?err, Inr (text_response ''late'')]"
  have q: "isQuotaError ?err = Inr False"
    by (simp add: isQuotaError_def quota_message_def quota_in_json_def parse_braced_def
          api_error_def js_value_defs)
  have g: "generateContent scripted preferredModel [] (world (start ?w))
             = (Inl ?err, [Inr (text_response ''late'')])"
    by (simp add: scripted_def start_def)
  show ?thesis
    using non_quota_error_propagates[OF g q] by (simp add: start_def)
qed

lemma invoked_append: "invoked (es @ fs) = invoked es @ invoked fs"
  by (induction es rule: invoked.induct) simp_all

lemma trace_wait_for:
  "trace (wait_for svc n s) = trace s @ (if js_positive n then [Wait n] else [])"
  by (simp add: wait_for_def)

text \<open>
  C7. A run of the call with its fallback extends the trace by the call to the
  preferred model and, only when that call failed with a quota error, by the wait
  (when a positive delay was read from the error) and one call to the fallback model.
  The models invoked are the preferred one, or the preferred one and then the
  fallback: never more than two calls.
\<close>

theorem at_most_two_invocations:
  "trace (snd (invoke_with_fallback svc prompt s))
     = trace s @ Invoke preferredModel #
         (case fst (generateContent svc preferredModel prompt (world s)) of
            Inr result \<Rightarrow> []
          | Inl err \<Rightarrow>
              if isQuotaError err = Inr True
              then (if js_positive (parseRetryMs err) then [Wait (parseRetryMs err)] else [])
                   @ [Invoke fallbackModel]
              else [])
   \<and> invoked (trace (snd (invoke_with_fallback svc prompt s)))
     = invoked (trace s) @
         (case fst (generateContent svc preferredModel prompt (world s)) of
            Inr result \<Rightarrow> [preferredModel]
          | Inl err \<Rightarrow>
              if isQuotaError err = Inr True then [preferredModel, fallbackModel]
              else [preferredModel])"
proof -
  obtain r w where g: "generateContent svc preferredModel prompt (world s) = (r, w)"
    by (cases "generateContent svc preferredModel prompt (world s)")
  let ?s1 = "s\<lparr>world := w, trace := trace s @ [Invoke preferredModel]\<rparr>"
  show ?thesis
  proof (cases r)
    case (Inr result)
    with g show ?thesis
      by (simp add: invoke_with_fallback_def attemptGenerate_def invoked_append)
  next
    case (Inl err)
    show ?thesis
    proof (cases "isQuotaError err")
      case (Inl e)
      with g \<open>r = Inl err\<close> show ?thesis
        by (simp add: invoke_with_fallback_def attemptGenerate_def invoked_append)
    next
      case (Inr b)
      show ?thesis
      proof (cases b)
        case False
        with g \<open>r = Inl err\<close> Inr show ?thesis
          by (simp add: invoke_with_fallback_def attemptGenerate_def invoked_append)
      next
        case True
        obtain r2 w2 where g2:
          "generateContent svc fallbackModel prompt (world (wait_for svc (parseRetryMs err) ?s1))
             = (r2, w2)"
          by (cases "generateContent svc fallbackModel prompt
                       (world (wait_for svc (parseRetryMs err) ?s1))")
        from g \<open>r = Inl err\<close> Inr True g2 show ?thesis
          by (cases r2)
             (simp_all add: invoke_with_fallback_def attemptGenerate_def invoked_append
                trace_wait_for)
      qed
    qed
  qed
qed

text \<open>
  C8. When the preferred model failed with a quota error and the fallback model
  fails too, what is thrown is the error of the fallback call.
\<close>

theorem fallback_error_propagates:
  assumes "generateContent svc preferredModel prompt (world s) = (Inl err, w1)"
    and "isQuotaError err = Inr True"
    and "generateContent svc fallbackModel prompt
           (world (wait_for svc (parseRetryMs err)
                     (s\<lparr>world := w1, trace := trace s @ [Invoke preferredModel]\<rparr>)))
         = (Inl err2, w2)"
  shows "fst (invoke_with_fallback svc prompt s) = Inl (Thrown err2)"
  using assms by (simp add: invoke_with_fallback_def attemptGenerate_def)

lemma parseRetryMs_plain_message:
  "parseRetryMs (api_error 429 ''Too Many Requests'') = Finite 0"
  by (simp add: parseRetryMs_def parseRetryMs_try_def parse_braced_def api_error_def
        js_value_defs)

theorem fallback_error_propagates_witness:
  "fst (invoke_with_fallback scripted []
          (start [Inl (api_error 429 ''Too Many Requests''), Inl (api_error 503 ''Unavailable'')]))
     = Inl (Thrown (api_error 503 ''Unavailable''))"
proof -
  let ?e1 = "api_error 429 ''Too Many Requests''"
  let ?e2 = "api_error 503 ''Unavailable''"
  have q: "isQuotaError ?e1 = Inr True"
    by (rule isQuotaError_status_429) (simp_all add: api_error_def js_value_defs)
  have g1: "generateContent scripted preferredModel [] (world (start [Inl ?e1, Inl ?e2]))
              = (Inl ?e1, [Inl ?e2])"
    by (simp add: scripted_def start_def)
  have g2: "generateContent scripted fallbackModel []
              (world (wait_for scripted (parseRetryMs ?e1)
                 ((start [Inl ?e1, Inl ?e2])\<lparr>world := [Inl ?e2],
                    trace := trace (start [Inl ?e1, Inl ?e2]) @ [Invoke preferredModel]\<rparr>)))
              = (Inl ?e2, [])"
    by (simp add: parseRetryMs_plain_message wait_for_def scripted_def start_def)
  show ?thesis
    by (rule fallback_error_propagates[OF g1 q g2])
qed

lemma parseRetryMs_quota_body: "parseRetryMs (api_error 429 quota_body) = Finite 2000"
  by (simp add: retry_defs json_defs api_error_def quota_body_def js_value_defs
        round_double_2 round_double_429 round_double_2000)

theorem at_most_two_invocations_witness:
  "trace (snd (invoke_with_fallback scripted []
       (start [Inl (api_error 429 quota_body), Inr (text_response ''RESULT'')])))
     = [Invoke preferredModel, Wait (Finite 2000), Invoke fallbackModel]
   \<and> fst (invoke_with_fallback scripted []
       (start [Inl (api_error 429 quota_body), Inr (text_response ''RESULT'')]))
     = Inr (text_response ''RESULT'')"
proof -
  let ?err = "api_error 429 quota_body"
  let ?s = "start [Inl ?err, Inr (text_response ''RESULT'')]"
  have q: "isQuotaError ?err = Inr True"
    by (rule isQuotaError_status_429) (simp_all add: api_error_def js_value_defs)
  have g: "generateContent scripted preferredModel [] (world ?s)
             = (Inl ?err, [Inr (text_response ''RESULT'')])"
    by (simp add: scripted_def start_def)
  have "trace (snd (invoke_with_fallback scripted [] ?s))
          = [Invoke preferredModel, Wait (Finite 2000), Invoke fallbackModel]"
    using at_most_two_invocations[of scripted "[]" ?s]
    by (simp add: g q parseRetryMs_quota_body) (simp add: start_def)
  moreover have "fst (invoke_with_fallback scripted [] ?s) = Inr (text_response ''RESULT'')"
    by (simp add: invoke_with_fallback_def attemptGenerate_def g q parseRetryMs_quota_body
          wait_for_def) (simp add: scripted_def start_def)
  ultimately show ?thesis by blast
qed

section \<open>Text that is not JSON\<close>

text \<open>
  C3. When the text, with the fences stripped and trimmed, is not JSON, the parse
  throws a \<open>SyntaxError\<close>. \<open>generateAIInsights\<close> ends with that error,
  having called the backend once; in the scheduled job the round that met the text
  ends the whole loop with it, whatever rows are left, so no call to the backend
  follows the failure.
\<close>

theorem invalid_json_is_terminal:
  "json_parse (trim (strip_fences text)) = None \<longrightarrow>
     json_extract text = Inl SyntaxError
     \<and> (template [industry] = Inr prompt
          \<and> generateContent svc (lit ''gemini-2.5-pro'') prompt (world s) = (Inr result, w)
          \<and> extract_text result = Inr text \<longrightarrow>
        generateAIInsights svc industry s
          = (Inl SyntaxError, s\<lparr>world := w, trace := trace s @ [Invoke (lit ''gemini-2.5-pro'')]\<rparr>)
        \<and> (\<not> nullish row \<and> getp row (lit ''industry'') = industry \<longrightarrow>
             insights_loop svc (row # rows) s
               = (Inl SyntaxError,
                  s\<lparr>world := w, trace := trace s @ [Invoke (lit ''gemini-2.5-pro'')]\<rparr>)))"
  by (simp add: json_extract_def JSON_parse_def generateAIInsights_def attemptGenerate_def
        insights_round_def bnd_def)

theorem invalid_json_is_terminal_witness:
  "generateAIInsights scripted (JStr (lit ''tech''))
      (start [Inr (text_response ''not json''), Inr (text_response ''{}'')])
     = (Inl SyntaxError,
        \<lparr>world = [Inr (text_response ''{}'')], trace = [Invoke (lit ''gemini-2.5-pro'')]\<rparr>)
   \<and> insights_loop scripted
        [JObj [(lit ''industry'', JStr (lit ''tech''))], JObj [(lit ''industry'', JStr (lit ''law''))]]
        (start [Inr (text_response ''not json''), Inr (text_response ''{}'')])
     = (Inl SyntaxError,
        \<lparr>world = [Inr (text_response ''{}'')], trace = [Invoke (lit ''gemini-2.5-pro'')]\<rparr>)"
proof -
  let ?s = "start [Inr (text_response ''not json''), Inr (text_response ''{}'')]"
  let ?row = "JObj [(lit ''industry'', JStr (lit ''tech''))]"
  have bad: "json_parse (trim (strip_fences (lit ''not json''))) = None"
    by (simp add: json_defs js_value_defs fence_def)
  have tpl: "template [JStr (lit ''tech'')] = Inr [lit ''tech'']"
    by (simp add: template_def)
  have gen: "generateContent scripted (lit ''gemini-2.5-pro'') [lit ''tech''] (world ?s)
               = (Inr (text_response ''not json''), [Inr (text_response ''{}'')])"
    by (simp add: scripted_def start_def)
  have ext: "extract_text (text_response ''not json'') = Inr (lit ''not json'')"
    by (simp add: extract_text_def text_response_def oget_def)
  have row: "\<not> nullish ?row \<and> getp ?row (lit ''industry'') = JStr (lit ''tech'')"
    by (simp add: lit_def)
  show ?thesis
    using invalid_json_is_terminal[of "lit ''not json''" "JStr (lit ''tech'')" "[lit ''tech'']"
            scripted ?s "text_response ''not json''" "[Inr (text_response ''{}'')]" ?row
            "[JObj [(lit ''industry'', JStr (lit ''law''))]]"]
          bad tpl gen ext row
    by (simp add: start_def)
qed

section \<open>Failures reach the caller\<close>

text \<open>
  C9. A failure of the backend call, of the extraction of the text or of the parse is
  never turned into a result: \<open>generateAIInsights\<close> throws the error as it is;
  \<open>generateQuiz\<close> and \<open>generateCoverLetter\<close> throw their own error in its
  place (for the cover letter the backend failure meant is the one the call with its
  fallback ends with). The one exception is the improvement tip of
  \<open>saveQuizResult\<close>: when its call or its extraction fails, the result is saved
  with the tip \<open>null\<close>.
\<close>

theorem failures_reach_the_caller:
  "(template [industry] = Inr prompt \<longrightarrow>
      (generateContent svc (lit ''gemini-2.5-pro'') prompt (world s) = (Inl err, w) \<longrightarrow>
         generateAIInsights svc industry s
           = (Inl (Thrown err), s\<lparr>world := w, trace := trace s @ [Invoke (lit ''gemini-2.5-pro'')]\<rparr>))
      \<and> (generateContent svc (lit ''gemini-2.5-pro'') prompt (world s) = (Inr result, w)
           \<and> extract_text result = Inl e \<longrightarrow>
         generateAIInsights svc industry s
           = (Inl e, s\<lparr>world := w, trace := trace s @ [Invoke (lit ''gemini-2.5-pro'')]\<rparr>))
      \<and> (generateContent svc (lit ''gemini-2.5-pro'') prompt (world s) = (Inr result, w)
           \<and> extract_text result = Inr text \<and> json_parse (trim (strip_fences text)) = None \<longrightarrow>
         generateAIInsights svc industry s
           = (Inl SyntaxError, s\<lparr>world := w, trace := trace s @ [Invoke (lit ''gemini-2.5-pro'')]\<rparr>)))
   \<and> (current_user svc s = (Inr user, s1) \<and> quiz_skills user = Inr skills
        \<and> template [getp user (lit ''industry''), skills] = Inr qprompt \<longrightarrow>
      (generateContent svc (lit ''gemini-2.5-pro'') qprompt (world s1) = (Inl err, w) \<longrightarrow>
         generateQuiz svc s
           = (Inl (Error (lit ''Failed to generate quiz questions'')),
              s1\<lparr>world := w, trace := trace s1 @ [Invoke (lit ''gemini-2.5-pro'')]\<rparr>))
      \<and> (generateContent svc (lit ''gemini-2.5-pro'') qprompt (world s1) = (Inr result, w)
           \<and> extract_text result = Inl e \<longrightarrow>
         generateQuiz svc s
           = (Inl (Error (lit ''Failed to generate quiz questions'')),
              s1\<lparr>world := w, trace := trace s1 @ [Invoke (lit ''gemini-2.5-pro'')]\<rparr>))
      \<and> (generateContent svc (lit ''gemini-2.5-pro'') qprompt (world s1) = (Inr result, w)
           \<and> extract_text result = Inr text
           \<and> json_parse (trim (strip_fences_quiz text)) = None \<longrightarrow>
         generateQuiz svc s
           = (Inl (Error (lit ''Failed to generate quiz questions'')),
              s1\<lparr>world := w, trace := trace s1 @ [Invoke (lit ''gemini-2.5-pro'')]\<rparr>)))
   \<and> (current_user svc s = (Inr user, s1) \<and> cover_letter_prompt data user = Inr cprompt \<longrightarrow>
      (invoke_with_fallback svc cprompt s1 = (Inl e, s2) \<longrightarrow>
         generateCoverLetter svc data s
           = (Inl (Error (lit ''Failed to generate cover letter'')), s2))
      \<and> (invoke_with_fallback svc cprompt s1 = (Inr result, s2)
           \<and> extract_content result = Inl e \<longrightarrow>
         generateCoverLetter svc data s
           = (Inl (Error (lit ''Failed to generate cover letter'')), s2)))
   \<and> (current_user svc s = (Inr user, s1) \<and> question_results answers qs 0 = Inr results
        \<and> filter is_wrong results \<noteq> []
        \<and> template (concat (map wrong_question (filter is_wrong results))) = Inr tprompt \<longrightarrow>
      (generateContent svc (lit ''gemini-2.5-pro'') tprompt (world s1) = (Inl err, w) \<longrightarrow>
         saveQuizResult svc (JArr qs) answers score s
           = save_assessment svc (assessment_row user score results JNull)
               (s1\<lparr>world := w, trace := trace s1 @ [Invoke (lit ''gemini-2.5-pro'')]\<rparr>))
      \<and> (generateContent svc (lit ''gemini-2.5-pro'') tprompt (world s1) = (Inr result, w)
           \<and> extract_text result = Inl e \<longrightarrow>
         saveQuizResult svc (JArr qs) answers score s
           = save_assessment svc (assessment_row user score results JNull)
               (s1\<lparr>world := w, trace := trace s1 @ [Invoke (lit ''gemini-2.5-pro'')]\<rparr>)))"
proof -
  have a: "template [industry] = Inr prompt \<longrightarrow>
      (generateContent svc (lit ''gemini-2.5-pro'') prompt (world s) = (Inl err, w) \<longrightarrow>
         generateAIInsights svc industry s
           = (Inl (Thrown err), s\<lparr>world := w, trace := trace s @ [Invoke (lit ''gemini-2.5-pro'')]\<rparr>))
      \<and> (generateContent svc (lit ''gemini-2.5-pro'') prompt (world s) = (Inr result, w)
           \<and> extract_text result = Inl e \<longrightarrow>
         generateAIInsights svc industry s
           = (Inl e, s\<lparr>world := w, trace := trace s @ [Invoke (lit ''gemini-2.5-pro'')]\<rparr>))
      \<and> (generateContent svc (lit ''gemini-2.5-pro'') prompt (world s) = (Inr result, w)
           \<and> extract_text result = Inr text \<and> json_parse (trim (strip_fences text)) = None \<longrightarrow>
         generateAIInsights svc industry s
           = (Inl SyntaxError, s\<lparr>world := w, trace := trace s @ [Invoke (lit ''gemini-2.5-pro'')]\<rparr>))"
    by (simp add: generateAIInsights_def attemptGenerate_def json_extract_def JSON_parse_def)
  have b: "current_user svc s = (Inr user, s1) \<and> quiz_skills user = Inr skills
        \<and> template [getp user (lit ''industry''), skills] = Inr qprompt \<longrightarrow>
      (generateContent svc (lit ''gemini-2.5-pro'') qprompt (world s1) = (Inl err, w) \<longrightarrow>
         generateQuiz svc s
           = (Inl (Error (lit ''Failed to generate quiz questions'')),
              s1\<lparr>world := w, trace := trace s1 @ [Invoke (lit ''gemini-2.5-pro'')]\<rparr>))
      \<and> (generateContent svc (lit ''gemini-2.5-pro'') qprompt (world s1) = (Inr result, w)
           \<and> extract_text result = Inl e \<longrightarrow>
         generateQuiz svc s
           = (Inl (Error (lit ''Failed to generate quiz questions'')),
              s1\<lparr>world := w, trace := trace s1 @ [Invoke (lit ''gemini-2.5-pro'')]\<rparr>))
      \<and> (generateContent svc (lit ''gemini-2.5-pro'') qprompt (world s1) = (Inr result, w)
           \<and> extract_text result = Inr text
           \<and> json_parse (trim (strip_fences_quiz text)) = None \<longrightarrow>
         generateQuiz svc s
           = (Inl (Error (lit ''Failed to generate quiz questions'')),
              s1\<lparr>world := w, trace := trace s1 @ [Invoke (lit ''gemini-2.5-pro'')]\<rparr>))"
    by (simp add: generateQuiz_def bnd_def attemptGenerate_def json_extract_quiz_def
          JSON_parse_def)
  have c: "current_user svc s = (Inr user, s1) \<and> cover_letter_prompt data user = Inr cprompt \<longrightarrow>
      (invoke_with_fallback svc cprompt s1 = (Inl e, s2) \<longrightarrow>
         generateCoverLetter svc data s
           = (Inl (Error (lit ''Failed to generate cover letter'')), s2))
      \<and> (invoke_with_fallback svc cprompt s1 = (Inr result, s2)
           \<and> extract_content result = Inl e \<longrightarrow>
         generateCoverLetter svc data s
           = (Inl (Error (lit ''Failed to generate cover letter'')), s2))"
    by (simp add: generateCoverLetter_def cover_letter_try_def bnd_def)
  have d: "current_user svc s = (Inr user, s1) \<and> question_results answers qs 0 = Inr results
        \<and> filter is_wrong results \<noteq> []
        \<and> template (concat (map wrong_question (filter is_wrong results))) = Inr tprompt \<longrightarrow>
      (generateContent svc (lit ''gemini-2.5-pro'') tprompt (world s1) = (Inl err, w) \<longrightarrow>
         saveQuizResult svc (JArr qs) answers score s
           = save_assessment svc (assessment_row user score results JNull)
               (s1\<lparr>world := w, trace := trace s1 @ [Invoke (lit ''gemini-2.5-pro'')]\<rparr>))
      \<and> (generateContent svc (lit ''gemini-2.5-pro'') tprompt (world s1) = (Inr result, w)
           \<and> extract_text result = Inl e \<longrightarrow>
         saveQuizResult svc (JArr qs) answers score s
           = save_assessment svc (assessment_row user score results JNull)
               (s1\<lparr>world := w, trace := trace s1 @ [Invoke (lit ''gemini-2.5-pro'')]\<rparr>))"
    by (simp add: saveQuizResult_def bnd_def improvement_tip_def attemptGenerate_def)
  from a b c d show ?thesis by (intro conjI)
qed

lemma current_user_scripted: "current_user scripted (start w) = (Inr the_user, start w)"
  by (simp add: current_user_def scripted_def start_def call_def bnd_def the_user_def lit_def)

theorem failures_reach_the_caller_witness:
  "generateCoverLetter scripted (JObj [(lit ''jobTitle'', JStr (lit ''Engineer''))])
      (start [Inl (api_error 500 ''Internal error'')])
     = (Inl (Error (lit ''Failed to generate cover letter'')),
        \<lparr>world = [], trace = [Invoke preferredModel]\<rparr>)
   \<and> fst (saveQuizResult scripted
             (JArr [JObj [(lit ''question'', JStr (lit ''Q'')), (lit ''correctAnswer'', JStr (lit ''A''))]])
             (JArr [JStr (lit ''B'')]) (JNum (Finite 0)) (start []))
     = Inr (assessment_row the_user (JNum (Finite 0))
              [JObj [(lit ''question'', JStr (lit ''Q'')), (lit ''answer'', JStr (lit ''A'')),
                     (lit ''userAnswer'', JStr (lit ''B'')), (lit ''isCorrect'', JBool False),
                     (lit ''explanation'', JUndefined)]] JNull)"
proof -
  let ?err = "api_error 500 ''Internal error''"
  let ?s = "start [Inl ?err]"
  let ?data = "JObj [(lit ''jobTitle'', JStr (lit ''Engineer''))]"
  let ?cp = "[lit ''Engineer'', lit ''undefined'', lit ''tech'', lit ''undefined'',
              lit ''undefined'', lit ''undefined'', lit ''undefined'']"
  have cp: "cover_letter_prompt ?data the_user = Inr ?cp"
    by (simp add: cover_letter_prompt_def skills_joined_def template_def the_user_def lit_def)
  have q: "isQuotaError ?err = Inr False"
    by (simp add: isQuotaError_def quota_message_def quota_in_json_def parse_braced_def
          api_error_def js_value_defs)
  have g: "generateContent scripted preferredModel ?cp (world ?s) = (Inl ?err, [])"
    by (simp add: scripted_def start_def)
  have inv: "invoke_with_fallback scripted ?cp ?s
               = (Inl (Thrown ?err), \<lparr>world = [], trace = [Invoke preferredModel]\<rparr>)"
    using non_quota_error_propagates_aux[OF g q] by (simp add: start_def)
  have letter: "generateCoverLetter scripted ?data ?s
      = (Inl (Error (lit ''Failed to generate cover letter'')),
         \<lparr>world = [], trace = [Invoke preferredModel]\<rparr>)"
    using failures_reach_the_caller[where svc = scripted and s = ?s and user = the_user
            and ?s1.0 = ?s and data = ?data and cprompt = ?cp and e = "Thrown ?err"
            and ?s2.0 = "\<lparr>world = [], trace = [Invoke preferredModel]\<rparr>"]
          current_user_scripted[of "[Inl ?err]"] cp inv
    by simp
  let ?qs = "[JObj [(lit ''question'', JStr (lit ''Q'')), (lit ''correctAnswer'', JStr (lit ''A''))]]"
  let ?rs = "[JObj [(lit ''question'', JStr (lit ''Q'')), (lit ''answer'', JStr (lit ''A'')),
                     (lit ''userAnswer'', JStr (lit ''B'')), (lit ''isCorrect'', JBool False),
                     (lit ''explanation'', JUndefined)]]"
  let ?tp = "[lit ''Q'', lit ''A'', lit ''B'']"
  have rs: "question_results (JArr [JStr (lit ''B'')]) ?qs 0 = Inr ?rs"
    by (simp add: question_result_def nat_digits.simps js_value_defs)
  have wrong: "filter is_wrong ?rs \<noteq> []"
    by (simp add: is_wrong_def lit_def)
  have tp: "template (concat (map wrong_question (filter is_wrong ?rs))) = Inr ?tp"
    by (simp add: is_wrong_def template_def wrong_question_def lit_def)
  have g2: "generateContent scripted (lit ''gemini-2.5-pro'') ?tp (world (start []))
              = (Inl JUndefined, [])"
    by (simp add: scripted_def start_def)
  have "saveQuizResult scripted (JArr ?qs) (JArr [JStr (lit ''B'')]) (JNum (Finite 0)) (start [])
      = save_assessment scripted (assessment_row the_user (JNum (Finite 0)) ?rs JNull)
          ((start [])\<lparr>world := [], trace := trace (start []) @ [Invoke (lit ''gemini-2.5-pro'')]\<rparr>)"
    using failures_reach_the_caller[where svc = scripted and s = "start []" and user = the_user
            and ?s1.0 = "start []" and answers = "JArr [JStr (lit ''B'')]" and qs = ?qs
            and results = ?rs and tprompt = ?tp and err = JUndefined and w = "[]"
            and score = "JNum (Finite 0)"]
          current_user_scripted[of "[]"] rs wrong tp g2
    by simp
  then have quiz: "fst (saveQuizResult scripted (JArr ?qs) (JArr [JStr (lit ''B'')])
                          (JNum (Finite 0)) (start []))
      = Inr (assessment_row the_user (JNum (Finite 0)) ?rs JNull)"
    by (simp add: save_assessment_def call_def scripted_def)
  from letter quiz show ?thesis by blast
qed

section \<open>Fenced JSON\<close>

lemma clean_fenced:
  assumes "\<not> str_includes t fence"
  shows "trim (strip_fences (fenced tagged t)) = trim t"
    and "trim (strip_fences_quiz (fenced tagged t)) = trim t"
proof -
  have "strip_fences (fenced tagged t) = t @ [0x0A]"
    using strip_fences_tail[OF assms] by (simp only: strip_fences_fenced)
  then show "trim (strip_fences (fenced tagged t)) = trim t"
    by (simp add: trim_snoc_space line_feed_space)
  have "strip_fences_quiz (fenced tagged t) = 0x0A # t @ [0x0A]"
    using strip_fences_quiz_tail[OF assms] by (simp only: strip_fences_quiz_fenced)
  then show "trim (strip_fences_quiz (fenced tagged t)) = trim t"
    using trim_snoc_space[OF line_feed_space, of "0x0A # t"]
    by (simp add: trim_cons_space line_feed_space)
qed

text \<open>
  C2 (as amended). For a text with no three backticks in a row, the extractor applied
  to the text in a fence, tagged or not, gives what \<open>JSON.parse\<close> gives on the
  trimmed text, in \<open>generateAIInsights\<close> and in \<open>generateQuiz\<close> alike; when
  the text itself is JSON this is the value parsing it directly gives.
\<close>

theorem fenced_json_extract:
  "\<not> str_includes t fence \<longrightarrow>
     json_extract (fenced tagged t) = JSON_parse (trim t)
     \<and> json_extract_quiz (fenced tagged t) = JSON_parse (trim t)
     \<and> (json_parse t = Some v \<longrightarrow>
          JSON_parse t = Inr v
          \<and> json_extract (fenced tagged t) = Inr v
          \<and> json_extract_quiz (fenced tagged t) = Inr v)"
  by (simp add: json_extract_def json_extract_quiz_def clean_fenced JSON_parse_def
        json_parse_trim)

theorem fenced_json_extract_witness:
  \<open>json_extract (fenced True (lit ''{"a":1}'')) = Inr (JObj [(lit ''a'', JNum (Finite 1))])
   \<and> json_extract_quiz (fenced False (lit ''{"a":1}'')) = Inr (JObj [(lit ''a'', JNum (Finite 1))])\<close>
proof -
  have nf: \<open>\<not> str_includes (lit ''{"a":1}'') fence\<close>
    by (simp add: lit_def fence_def starts_with_def)
  have p: \<open>json_parse (lit ''{"a":1}'') = Some (JObj [(lit ''a'', JNum (Finite 1))])\<close>
    by (simp add: json_defs js_value_defs round_double_1)
  show ?thesis
    using fenced_json_extract[of \<open>lit ''{"a":1}''\<close> True \<open>JObj [(lit ''a'', JNum (Finite 1))]\<close>]
          fenced_json_extract[of \<open>lit ''{"a":1}''\<close> False \<open>JObj [(lit ''a'', JNum (Finite 1))]\<close>]
          nf p
    by blast
qed

text \<open>
  The claim as first stated fails on a text with backticks inside: the JSON string of
  three backticks parses to that string, but in a fence the extractor removes the
  three backticks from the inside too, and gives the empty string.
\<close>

theorem fence_inside_json_removed:
  "json_extract (fenced True [0x22, 0x60, 0x60, 0x60, 0x22]) = Inr (JStr [])
   \<and> JSON_parse [0x22, 0x60, 0x60, 0x60, 0x22] = Inr (JStr [0x60, 0x60, 0x60])"
  by (simp add: json_extract_def fenced_def fence_def eat_def json_defs js_value_defs)


end
